theory Spec2Isabelle
  imports Main "HOL-Library.AList" "HOL-Library.Sublist"
begin

section \<open>Strings\<close>

text \<open>
  A Python \<open>str\<close> is modelled as a \<open>string\<close>, one \<open>char\<close> for one code point (the code
  points below 256). \<open>len\<close> is \<open>length\<close>, a slice \<open>s[:n]\<close> is \<open>take n s\<close>.
\<close>

text \<open>\<open>s.lstrip('v')\<close>: every leading \<open>v\<close> is removed.\<close>

definition lstrip_chars :: "char set \<Rightarrow> string \<Rightarrow> string" where
  "lstrip_chars cs s = dropWhile (\<lambda>c. c \<in> cs) s"

text \<open>
  \<open>s.split(sep)\<close> for a one-character separator: the pieces between the separators, empty
  pieces included; the result always has at least one piece. \<open>cur\<close> is the piece being
  read, reversed.
\<close>

fun split_acc :: "char \<Rightarrow> string \<Rightarrow> string \<Rightarrow> string list" where
  "split_acc sep cur [] = [rev cur]"
| "split_acc sep cur (c # cs) =
     (if c = sep then rev cur # split_acc sep [] cs else split_acc sep (c # cur) cs)"

definition split :: "char \<Rightarrow> string \<Rightarrow> string list" where
  "split sep s = split_acc sep [] s"

section \<open>Tag normalisation (\<open>generate_release_ini\<close>, the body of \<open>if tag:\<close>)\<close>

text \<open>
  \<open>parts[-2]\<close> and \<open>parts[-1]\<close> are read only under \<open>len(parts) > 1\<close>, where both exist.
  The inner conditional \<open>... if len(parts) > 1 else parts[-1][:7]\<close> of the source is kept.
\<close>

definition clean_tag :: "string \<Rightarrow> string" where
  "clean_tag tag =
     (let clean = lstrip_chars {CHR ''v''} tag in
      if length clean > 30 then
        (if CHR ''-'' \<in> set clean then
           (let parts = split (CHR ''-'') clean in
            if length parts > 1 \<and> length (last parts) > 20 then
              (if length parts > 1
               then parts ! (length parts - 2) @ ''-'' @ take 7 (last parts)
               else take 7 (last parts))
            else take 30 clean)
         else take 30 clean)
      else clean)"

section \<open>Errors\<close>

text \<open>The exceptions that can leave the functions modelled here.\<close>

datatype error =
    ValueError
  | DuplicateSectionError
  | NoSectionError
  | FileNotFoundError
  | MissingSectionHeaderError
  | DuplicateOptionError
  | ParsingError

section \<open>The release API and \<open>get_latest_tag\<close>\<close>

text \<open>
  What one request to the remote API gives: an HTTP error with its status code, any other
  exception (transport, timeout, a body that is not JSON or not an array of objects), or
  the decoded JSON array of release objects. A release object is a dictionary whose
  values are strings or \<open>null\<close>. The remote side is a function from the request URL to this
  outcome.
\<close>

datatype jvalue = JNull | JStr string

datatype response =
    HTTPError nat
  | OtherException
  | Releases "(string \<rightharpoonup> jvalue) list"

type_synonym api = "string \<Rightarrow> response"

definition GITHUB_API :: string where
  "GITHUB_API = ''https://api.github.com/repos''"

text \<open>\<open>d.get(key, default)\<close>.\<close>

definition dict_get :: "(string \<rightharpoonup> jvalue) \<Rightarrow> string \<Rightarrow> jvalue \<Rightarrow> jvalue" where
  "dict_get d k dflt = (case d k of Some v \<Rightarrow> v | None \<Rightarrow> dflt)"

text \<open>The returned Python value: \<open>None\<close> for \<open>null\<close>, the string otherwise.\<close>

fun py_str :: "jvalue \<Rightarrow> string option" where
  "py_str JNull = None"
| "py_str (JStr s) = Some s"

text \<open>
  Every \<open>except\<close> branch only prints and falls through to \<open>return None\<close>; so does an empty
  array.
\<close>

definition get_latest_tag :: "api \<Rightarrow> string \<Rightarrow> string \<Rightarrow> string option" where
  "get_latest_tag remote owner repo =
     (case remote (GITHUB_API @ ''/'' @ owner @ ''/'' @ repo @ ''/releases?per_page=1'') of
        HTTPError code \<Rightarrow> None
      | OtherException \<Rightarrow> None
      | Releases releases \<Rightarrow>
          (case releases of
             [] \<Rightarrow> None
           | r # _ \<Rightarrow> py_str (dict_get r ''tag_name'' (dict_get r ''name'' (JStr [])))))"

text \<open>The test \<open>if tag:\<close>: \<open>None\<close> and the empty string are false.\<close>

fun truthy :: "string option \<Rightarrow> bool" where
  "truthy None = False"
| "truthy (Some s) = (s \<noteq> [])"

section \<open>The \<open>ConfigParser\<close> object\<close>

text \<open>
  The standard library's parser object as \<open>generate_release_ini\<close> uses it: the \<open>DEFAULT\<close>
  dictionary and the ordered dictionary of sections, each an ordered dictionary of
  options. \<open>optionxform = str\<close> keeps option names as they are. An insertion-ordered
  dictionary is an association list updated with \<open>AList.update\<close>: a present key keeps its
  place, a new key goes to the end.
\<close>

record config =
  defaults :: "(string \<times> string) list"
  sections :: "(string \<times> (string \<times> string) list) list"

definition new_config :: config where
  "new_config = \<lparr>defaults = [], sections = []\<rparr>"

definition add_section :: "config \<Rightarrow> string \<Rightarrow> error + config" where
  "add_section c section =
     (if section = ''DEFAULT'' then Inl ValueError
      else if section \<in> fst ` set (sections c) then Inl DuplicateSectionError
      else Inr (c\<lparr>sections := sections c @ [(section, [])]\<rparr>))"

text \<open>\<open>s.replace(old, new)\<close> for a non-empty \<open>old\<close>, left to right without overlap.\<close>

function str_replace :: "string \<Rightarrow> string \<Rightarrow> string \<Rightarrow> string" where
  "str_replace old new [] = []"
| "str_replace old new (c # cs) =
     (if old \<noteq> [] \<and> prefix old (c # cs)
      then new @ str_replace old new (drop (length old) (c # cs))
      else c # str_replace old new cs)"
  by pat_completeness auto
termination
  by (relation "measure (\<lambda>(old, new, s). length s)") auto

text \<open>
  \<open>BasicInterpolation.before_set\<close>: the value is refused when a \<open>%\<close> is left after the
  escaped \<open>%%\<close> and the references \<open>%(name)s\<close> are taken out. \<open>match_key\<close> is one match of
  the pattern \<open>%\(([^)]+)\)s\<close> at the head of the string and gives what follows it.
\<close>

definition match_key :: "string \<Rightarrow> string option" where
  "match_key s =
     (case s of
        a # b # t \<Rightarrow>
          (if a = CHR ''%'' \<and> b = CHR ''('' \<and> takeWhile (\<lambda>c. c \<noteq> CHR '')'') t \<noteq> [] then
             (case dropWhile (\<lambda>c. c \<noteq> CHR '')'') t of
                x # y # r \<Rightarrow> (if y = CHR ''s'' then Some r else None)
              | _ \<Rightarrow> None)
           else None)
      | _ \<Rightarrow> None)"

lemma match_key_shorter: "match_key s = Some r \<Longrightarrow> length r < length s"
proof -
  assume m: "match_key s = Some r"
  then obtain a b t x y where s: "s = a # b # t"
    and d: "dropWhile (\<lambda>c. c \<noteq> CHR '')'') t = x # y # r"
    by (auto simp: match_key_def split: list.splits if_splits)
  have "length (dropWhile (\<lambda>c. c \<noteq> CHR '')'') t) \<le> length t"
    by (rule length_dropWhile_le)
  with s d show ?thesis by simp
qed

function remove_keys :: "string \<Rightarrow> string" where
  "remove_keys [] = []"
| "remove_keys (c # cs) =
     (case match_key (c # cs) of
        Some r \<Rightarrow> remove_keys r
      | None \<Rightarrow> c # remove_keys cs)"
  by pat_completeness auto
termination
  by (relation "measure length") (auto dest: match_key_shorter)

definition valid_interpolation :: "string \<Rightarrow> bool" where
  "valid_interpolation v \<longleftrightarrow> CHR ''%'' \<notin> set (remove_keys (str_replace ''%%'' [] v))"

text \<open>
  \<open>config.set(section, option, value)\<close>. The interpolation check runs only for a non-empty
  value (\<open>if value:\<close>).
\<close>

definition config_set :: "config \<Rightarrow> string \<Rightarrow> string \<Rightarrow> string \<Rightarrow> error + config" where
  "config_set c section option v =
     (if v \<noteq> [] \<and> \<not> valid_interpolation v then Inl ValueError
      else if section = [] \<or> section = ''DEFAULT''
      then Inr (c\<lparr>defaults := AList.update option v (defaults c)\<rparr>)
      else
        (case map_of (sections c) section of
           None \<Rightarrow> Inl NoSectionError
         | Some d \<Rightarrow>
             Inr (c\<lparr>sections :=
                    AList.update section (AList.update option v d) (sections c)\<rparr>)))"

text \<open>
  \<open>config.write(f, space_around_delimiters=False)\<close>: the delimiter is \<open>=\<close>; a line break
  inside a value is followed by a tab; every section ends with an empty line.
\<close>

definition write_option :: "string \<times> string \<Rightarrow> string" where
  "write_option kv =
     fst kv @ ''='' @ str_replace [CHR 0x0A] [CHR 0x0A, CHR 0x09] (snd kv) @ [CHR 0x0A]"

definition write_section :: "string \<Rightarrow> (string \<times> string) list \<Rightarrow> string" where
  "write_section section_name items =
     ''['' @ section_name @ '']'' @ [CHR 0x0A] @ concat (map write_option items) @ [CHR 0x0A]"

definition config_write :: "config \<Rightarrow> string" where
  "config_write c =
     (if defaults c \<noteq> [] then write_section ''DEFAULT'' (defaults c) else [])
     @ concat (map (\<lambda>(s, items). write_section s items) (sections c))"

section \<open>\<open>generate_release_ini\<close>\<close>

text \<open>An entry is the dictionary built by \<open>parse_ini_file\<close>.\<close>

record entry =
  name :: string
  owner :: string
  repo :: string
  url :: string

text \<open>The section of the output file for a category (lines 99 to 108).\<close>

definition section_name_of :: "string \<Rightarrow> string" where
  "section_name_of cat =
     (if cat = ''sysmodules'' then ''Versions''
      else if cat = ''overlays'' then ''Versions''
      else if cat = ''apps'' then ''Versions''
      else if cat = ''emulatoren'' then ''Versions''
      else ''Release Info'')"

text \<open>The variables the loop over the entries updates.\<close>

record loop_state =
  cfg :: config
  success_count :: nat
  failure_count :: nat
  failed_entries :: "string list"

definition failed_label :: "entry \<Rightarrow> string" where
  "failed_label e = name e @ '' ('' @ owner e @ ''/'' @ repo e @ '')''"

text \<open>
  One round of the loop. The pause before every request but the first and the progress
  lines have no effect on the values and are left out. \<open>config.set\<close> can raise; nothing
  catches it, so it ends \<open>generate_release_ini\<close>.
\<close>

definition process_entry :: "api \<Rightarrow> string \<Rightarrow> loop_state \<Rightarrow> entry \<Rightarrow> error + loop_state" where
  "process_entry remote section_name st e =
     (case get_latest_tag remote (owner e) (repo e) of
        None \<Rightarrow>
          Inr (st\<lparr>failure_count := failure_count st + 1,
                  failed_entries := failed_entries st @ [failed_label e]\<rparr>)
      | Some tag \<Rightarrow>
          if truthy (Some tag) then
            (case config_set (cfg st) section_name (name e) (clean_tag tag) of
               Inl err \<Rightarrow> Inl err
             | Inr c \<Rightarrow> Inr (st\<lparr>cfg := c, success_count := success_count st + 1\<rparr>))
          else
            Inr (st\<lparr>failure_count := failure_count st + 1,
                    failed_entries := failed_entries st @ [failed_label e]\<rparr>))"

fun process_entries :: "api \<Rightarrow> string \<Rightarrow> loop_state \<Rightarrow> entry list \<Rightarrow> error + loop_state" where
  "process_entries remote section_name st [] = Inr st"
| "process_entries remote section_name st (e # es) =
     (case process_entry remote section_name st e of
        Inl err \<Rightarrow> Inl err
      | Inr st' \<Rightarrow> process_entries remote section_name st' es)"

text \<open>The dictionary \<open>generate_release_ini\<close> returns.\<close>

record category_result =
  category :: string
  total :: nat
  success :: nat
  failed :: nat
  failed_list :: "string list"

text \<open>
  The file system: the text of every file that exists, and the paths written so far, in
  order. \<open>open(path, 'w')\<close> followed by \<open>config.write\<close> replaces the text of the file.
\<close>

record world =
  files :: "string \<rightharpoonup> string"
  written :: "string list"

definition write_file :: "world \<Rightarrow> string \<Rightarrow> string \<Rightarrow> world" where
  "write_file w path txt = w\<lparr>files := (files w)(path \<mapsto> txt), written := written w @ [path]\<rparr>"

definition generate_release_ini ::
  "api \<Rightarrow> world \<Rightarrow> string \<Rightarrow> entry list \<Rightarrow> string \<Rightarrow> error + (category_result \<times> world)" where
  "generate_release_ini remote w cat entries output_path =
     (let section_name = section_name_of cat in
      case add_section new_config section_name of
        Inl err \<Rightarrow> Inl err
      | Inr c \<Rightarrow>
          (case process_entries remote section_name
                  \<lparr>cfg = c, success_count = 0, failure_count = 0, failed_entries = []\<rparr> entries of
             Inl err \<Rightarrow> Inl err
           | Inr st \<Rightarrow>
               Inr (\<lparr>category = cat, total = length entries, success = success_count st,
                     failed = failure_count st, failed_list = failed_entries st\<rparr>,
                    write_file w output_path (config_write (cfg st)))))"

section \<open>\<open>extract_repo_from_url\<close>\<close>

text \<open>
  One match of \<open>/repos/([^/]+)/([^/]+)/releases\<close> at the head of a string. A group is a
  longest run of characters other than \<open>/\<close>: a shorter run would have to be followed by
  \<open>/\<close> and is followed by a character of the run.
\<close>

definition match_repo :: "string \<Rightarrow> (string \<times> string) option" where
  "match_repo s =
     (if prefix ''/repos/'' s then
        (let t = drop 7 s;
             g1 = takeWhile (\<lambda>c. c \<noteq> CHR ''/'') t
         in case dropWhile (\<lambda>c. c \<noteq> CHR ''/'') t of
              [] \<Rightarrow> None
            | _ # t2 \<Rightarrow>
                (let g2 = takeWhile (\<lambda>c. c \<noteq> CHR ''/'') t2
                 in if g1 \<noteq> [] \<and> g2 \<noteq> []
                       \<and> prefix ''/releases'' (dropWhile (\<lambda>c. c \<noteq> CHR ''/'') t2)
                    then Some (g1, g2) else None))
      else None)"

text \<open>\<open>re.search\<close>: the match at the first position that has one.\<close>

fun extract_repo_from_url :: "string \<Rightarrow> (string \<times> string) option" where
  "extract_repo_from_url [] = None"
| "extract_repo_from_url (c # cs) =
     (case match_repo (c # cs) of
        Some p \<Rightarrow> Some p
      | None \<Rightarrow> extract_repo_from_url cs)"

section \<open>\<open>parse_ini_file\<close>\<close>

text \<open>
  \<open>\s\<close> of a \<open>str\<close> pattern and \<open>str.strip\<close> take the same characters as white space; these
  are the ones below 256.
\<close>

definition py_isspace :: "char \<Rightarrow> bool" where
  "py_isspace c \<longleftrightarrow> (of_char c :: nat) \<in> {9, 10, 11, 12, 13, 28, 29, 30, 31, 32, 133, 160}"

text \<open>
  Reading a file opened in text mode turns \<open>\r\n\<close> and \<open>\r\<close> into \<open>\n\<close>.
\<close>

fun universal_newlines :: "string \<Rightarrow> string" where
  "universal_newlines [] = []"
| "universal_newlines [a] = (if a = CHR 0x0D then [CHR 0x0A] else [a])"
| "universal_newlines (a # b # cs) =
     (if a = CHR 0x0D \<and> b = CHR 0x0A then CHR 0x0A # universal_newlines cs
      else if a = CHR 0x0D then CHR 0x0A # universal_newlines (b # cs)
      else a # universal_newlines (b # cs))"

text \<open>
  One match of \<open>\[([^\]]+)\]\<close> at the head of a string: the section name and the text
  after the closing bracket, which is \<open>content[section_start:]\<close>. The name may span lines.
\<close>

definition match_header :: "string \<Rightarrow> (string \<times> string) option" where
  "match_header s =
     (case s of
        [] \<Rightarrow> None
      | c # t \<Rightarrow>
          (if c = CHR ''['' \<and> takeWhile (\<lambda>x. x \<noteq> CHR '']'') t \<noteq> [] then
             (case dropWhile (\<lambda>x. x \<noteq> CHR '']'') t of
                [] \<Rightarrow> None
              | _ # rest \<Rightarrow> Some (takeWhile (\<lambda>x. x \<noteq> CHR '']'') t, rest))
           else None))"

lemma match_header_shorter: "match_header s = Some m \<Longrightarrow> length (snd m) < length s"
proof -
  assume "match_header s = Some m"
  then obtain c t x where s: "s = c # t"
    and d: "dropWhile (\<lambda>x. x \<noteq> CHR '']'') t = x # snd m"
    by (auto simp: match_header_def split: list.splits if_splits)
  have "length (dropWhile (\<lambda>x. x \<noteq> CHR '']'') t) \<le> length t"
    by (rule length_dropWhile_le)
  with s d show ?thesis by simp
qed

text \<open>
  \<open>re.finditer(r'^\[([^\]]+)\]', content, re.MULTILINE)\<close>: the matches from left to right,
  each search starting where the last match ended. \<open>bol\<close> says whether the position is
  the start of the text or follows a line break, where \<open>^\<close> matches.
\<close>

function finditer_sections :: "bool \<Rightarrow> string \<Rightarrow> (string \<times> string) list" where
  "finditer_sections bol [] = []"
| "finditer_sections bol (c # cs) =
     (case (if bol then match_header (c # cs) else None) of
        Some m \<Rightarrow> m # finditer_sections False (snd m)
      | None \<Rightarrow> finditer_sections (c = CHR 0x0A) cs)"
  by pat_completeness auto
termination
  by (relation "measure (\<lambda>(bol, s). length s)")
     (auto split: if_splits dest: match_header_shorter)

text \<open>
  \<open>content[section_start:section_end]\<close>: the text up to the next \<open>[\<close> at the start of a
  line. The search runs on the slice, so the start of the slice counts as the start of a
  line.
\<close>

fun section_body :: "bool \<Rightarrow> string \<Rightarrow> string" where
  "section_body bol [] = []"
| "section_body bol (c # cs) =
     (if bol \<and> c = CHR ''['' then [] else c # section_body (c = CHR 0x0A) cs)"

text \<open>
  \<open>re.findall(r'https://api\.github\.com/repos/[^\s]+', section_content)\<close>: a match is the
  fixed text followed by the longest non-empty run of characters that are not white space.
\<close>

definition match_github_url :: "string \<Rightarrow> (string \<times> string) option" where
  "match_github_url s =
     (if prefix ''https://api.github.com/repos/'' s
         \<and> takeWhile (\<lambda>c. \<not> py_isspace c) (drop 29 s) \<noteq> []
      then Some (''https://api.github.com/repos/'' @ takeWhile (\<lambda>c. \<not> py_isspace c) (drop 29 s),
                 dropWhile (\<lambda>c. \<not> py_isspace c) (drop 29 s))
      else None)"

lemma match_github_url_shorter: "match_github_url s = Some m \<Longrightarrow> length (snd m) < length s"
proof -
  assume "match_github_url s = Some m"
  then have p: "prefix ''https://api.github.com/repos/'' s"
    and m: "snd m = dropWhile (\<lambda>c. \<not> py_isspace c) (drop 29 s)"
    by (auto simp: match_github_url_def split: if_splits)
  from p have "29 \<le> length s"
    by (auto simp: prefix_def)
  moreover have "length (snd m) \<le> length (drop 29 s)"
    unfolding m by (rule length_dropWhile_le)
  ultimately show ?thesis by simp
qed

function findall_github_urls :: "string \<Rightarrow> string list" where
  "findall_github_urls [] = []"
| "findall_github_urls (c # cs) =
     (case match_github_url (c # cs) of
        Some m \<Rightarrow> fst m # findall_github_urls (snd m)
      | None \<Rightarrow> findall_github_urls cs)"
  by pat_completeness auto
termination
  by (relation "measure length") (auto dest: match_github_url_shorter)

text \<open>
  The body of the loop over the section matches: the entry a section gives, if any. A
  section with no URL, or whose first URL has no owner and repository, gives none.
\<close>

definition section_entry :: "string \<times> string \<Rightarrow> entry option" where
  "section_entry m =
     (let section_name = fst m;
          section_content = section_body True (snd m);
          github_urls = findall_github_urls section_content
      in case github_urls of
           [] \<Rightarrow> None
         | u # _ \<Rightarrow>
             (case extract_repo_from_url u of
                None \<Rightarrow> None
              | Some repo_info \<Rightarrow>
                  Some \<lparr>name = section_name, owner = fst repo_info, repo = snd repo_info,
                        url = u\<rparr>))"

fun collect_entries :: "entry list \<Rightarrow> (string \<times> string) list \<Rightarrow> entry list" where
  "collect_entries entries [] = entries"
| "collect_entries entries (m # ms) =
     collect_entries (case section_entry m of None \<Rightarrow> entries | Some e \<Rightarrow> entries @ [e]) ms"

definition parse_ini_file :: "world \<Rightarrow> string \<Rightarrow> error + entry list" where
  "parse_ini_file w file_path =
     (case files w file_path of
        None \<Rightarrow> Inl FileNotFoundError
      | Some txt \<Rightarrow> Inr (collect_entries [] (finditer_sections True (universal_newlines txt))))"

section \<open>Reading a file back with \<open>ConfigParser\<close>\<close>

text \<open>
  \<open>RawConfigParser._read\<close> of the standard library with the settings of a parser built as in
  \<open>generate_release_ini\<close>: delimiters \<open>=\<close> and \<open>:\<close>, comment prefixes \<open>#\<close> and \<open>;\<close>, no inline
  comments, strict, empty lines allowed in values, no option without value, and
  \<open>optionxform = str\<close>. The result is the stored mapping, before any interpolation.
\<close>

definition lstrip :: "string \<Rightarrow> string" where
  "lstrip s = dropWhile py_isspace s"

definition rstrip :: "string \<Rightarrow> string" where
  "rstrip s = rev (dropWhile py_isspace (rev s))"

definition strip :: "string \<Rightarrow> string" where
  "strip s = rstrip (lstrip s)"

text \<open>Iterating over the file: the lines, each with its line break. \<open>cur\<close> is reversed.\<close>

fun readlines_acc :: "string \<Rightarrow> string \<Rightarrow> string list" where
  "readlines_acc cur [] = (if cur = [] then [] else [rev cur])"
| "readlines_acc cur (c # cs) =
     (if c = CHR 0x0A then rev (c # cur) # readlines_acc [] cs
      else readlines_acc (c # cur) cs)"

definition readlines :: "string \<Rightarrow> string list" where
  "readlines s = readlines_acc [] s"

text \<open>
  The variables of \<open>_read\<close>. \<open>cursect\<close> is \<open>None\<close>, the \<open>DEFAULT\<close> dictionary or the dictionary
  of a section; \<open>sectname\<close> is the name that goes with it. While reading, a value is the list
  of its lines. \<open>elements_added\<close> holds section names and pairs of section and option.
\<close>

datatype cursor = NoSection | InDefault | InSection string

record parser =
  p_defaults :: "(string \<times> string list) list"
  p_sections :: "(string \<times> (string \<times> string list) list) list"
  cursect :: cursor
  optname :: "string option"
  indent_level :: nat
  elements_added :: "(string + string \<times> string) list"
  parsing_error :: bool

definition new_parser :: parser where
  "new_parser = \<lparr>p_defaults = [], p_sections = [], cursect = NoSection, optname = None,
                   indent_level = 0, elements_added = [], parsing_error = False\<rparr>"

fun sectname :: "cursor \<Rightarrow> string" where
  "sectname NoSection = []"
| "sectname InDefault = ''DEFAULT''"
| "sectname (InSection s) = s"

text \<open>Applying \<open>f\<close> to the dictionary \<open>cursect\<close> refers to.\<close>

fun on_cursect ::
  "cursor \<Rightarrow> ((string \<times> string list) list \<Rightarrow> (string \<times> string list) list) \<Rightarrow> parser \<Rightarrow> parser" where
  "on_cursect NoSection f p = p"
| "on_cursect InDefault f p = p\<lparr>p_defaults := f (p_defaults p)\<rparr>"
| "on_cursect (InSection s) f p = p\<lparr>p_sections := AList.map_entry s f (p_sections p)\<rparr>"

text \<open>
  The option a continuation line or an empty line is added to: the test
  \<open>cursect is not None and optname\<close>.
\<close>

definition open_option :: "parser \<Rightarrow> string option" where
  "open_option p =
     (if cursect p = NoSection then None
      else case optname p of None \<Rightarrow> None | Some n \<Rightarrow> if n = [] then None else Some n)"

definition is_comment_line :: "string \<Rightarrow> bool" where
  "is_comment_line line \<longleftrightarrow> prefix ''#'' (strip line) \<or> prefix '';'' (strip line)"

text \<open>
  \<open>SECTCRE.match(value)\<close> with the pattern \<open>\[(?P<header>.+)\]\<close>: the header runs to the last
  closing bracket of the line and is not empty.
\<close>

definition match_sect :: "string \<Rightarrow> string option" where
  "match_sect v =
     (case v of
        [] \<Rightarrow> None
      | c # t \<Rightarrow>
          (if c = CHR ''['' then
             (case dropWhile (\<lambda>x. x \<noteq> CHR '']'') (rev t) of
                [] \<Rightarrow> None
              | _ # h \<Rightarrow> if h = [] then None else Some (rev h))
           else None))"

text \<open>
  \<open>_optcre.match(value)\<close> with the pattern \<open>(?P<option>.*?)\s*(?P<vi>=|:)\s*(?P<value>.*)$\<close>:
  the option is the text before the first delimiter without the white space at its end,
  the value is the text after that delimiter without the white space at its start.
\<close>

definition match_opt :: "string \<Rightarrow> (string \<times> string) option" where
  "match_opt v =
     (case dropWhile (\<lambda>c. c \<noteq> CHR ''='' \<and> c \<noteq> CHR '':'') v of
        [] \<Rightarrow> None
      | _ # after \<Rightarrow>
          Some (rstrip (takeWhile (\<lambda>c. c \<noteq> CHR ''='' \<and> c \<noteq> CHR '':'') v), lstrip after))"

text \<open>The body of the loop over the lines.\<close>

definition read_line :: "parser \<Rightarrow> string \<Rightarrow> error + parser" where
  "read_line p line =
     (let v = (if is_comment_line line then [] else strip line) in
      if v = [] then
        (case (if is_comment_line line then None else open_option p) of
           Some n \<Rightarrow> Inr (on_cursect (cursect p) (AList.map_entry n (\<lambda>l. l @ [[]])) p)
         | None \<Rightarrow> Inr p)
      else
        (let cur_indent_level = length (takeWhile py_isspace line) in
         case (if cur_indent_level > indent_level p then open_option p else None) of
           Some n \<Rightarrow> Inr (on_cursect (cursect p) (AList.map_entry n (\<lambda>l. l @ [v])) p)
         | None \<Rightarrow>
             (let q = p\<lparr>indent_level := cur_indent_level\<rparr> in
              case match_sect v of
                Some header \<Rightarrow>
                  if header \<in> fst ` set (p_sections q) then
                    (if Inl header \<in> set (elements_added q) then Inl DuplicateSectionError
                     else Inr (q\<lparr>cursect := InSection header, optname := None,
                                  elements_added := Inl header # elements_added q\<rparr>))
                  else if header = ''DEFAULT'' then
                    Inr (q\<lparr>cursect := InDefault, optname := None\<rparr>)
                  else
                    Inr (q\<lparr>p_sections := p_sections q @ [(header, [])],
                            cursect := InSection header, optname := None,
                            elements_added := Inl header # elements_added q\<rparr>)
              | None \<Rightarrow>
                  if cursect q = NoSection then Inl MissingSectionHeaderError
                  else
                    (case match_opt v of
                       None \<Rightarrow> Inr (q\<lparr>parsing_error := True\<rparr>)
                     | Some mo \<Rightarrow>
                         (let n = rstrip (fst mo) in
                          if Inr (sectname (cursect q), n) \<in> set (elements_added q)
                          then Inl DuplicateOptionError
                          else
                            Inr (on_cursect (cursect q) (AList.update n [strip (snd mo)])
                                   (q\<lparr>optname := Some n,
                                      parsing_error := parsing_error q \<or> fst mo = [],
                                      elements_added :=
                                        Inr (sectname (cursect q), n) # elements_added q\<rparr>)))))))"

fun read_lines :: "parser \<Rightarrow> string list \<Rightarrow> error + parser" where
  "read_lines p [] = Inr p"
| "read_lines p (line # rest) =
     (case read_line p line of
        Inl err \<Rightarrow> Inl err
      | Inr q \<Rightarrow> read_lines q rest)"

text \<open>\<open>_join_multiline_values\<close>: \<open>'\n'.join(val).rstrip()\<close> for every value.\<close>

fun join_lines :: "string list \<Rightarrow> string" where
  "join_lines [] = []"
| "join_lines [x] = x"
| "join_lines (x # y # ys) = x @ CHR 0x0A # join_lines (y # ys)"

definition join_values :: "(string \<times> string list) list \<Rightarrow> (string \<times> string) list" where
  "join_values d = map (\<lambda>kv. (fst kv, rstrip (join_lines (snd kv)))) d"

text \<open>
  Reading the text of a file into a new parser. A line that is neither a header nor an
  option is reported with \<open>ParsingError\<close> once all lines are read.
\<close>

definition config_read :: "string \<Rightarrow> error + config" where
  "config_read s =
     (case read_lines new_parser (readlines (universal_newlines s)) of
        Inl err \<Rightarrow> Inl err
      | Inr p \<Rightarrow>
          if parsing_error p then Inl ParsingError
          else Inr \<lparr>defaults = join_values (p_defaults p),
                    sections = map (\<lambda>sd. (fst sd, join_values (snd sd))) (p_sections p)\<rparr>)"

section \<open>\<open>main\<close>\<close>

text \<open>
  One of the four blocks of \<open>main\<close>; they differ in the category and the two paths only.
  Paths are relative to the directory of the script. An exception of \<open>generate_release_ini\<close>
  is not caught and ends the run.
\<close>

definition process_category ::
  "api \<Rightarrow> string \<Rightarrow> string \<Rightarrow> string \<Rightarrow> world \<times> category_result list
     \<Rightarrow> error + (world \<times> category_result list)" where
  "process_category remote cat input_path output_path s =
     (let w = fst s; all_results = snd s in
      if files w input_path \<noteq> None then
        (case parse_ini_file w input_path of
           Inl err \<Rightarrow> Inl err
         | Inr entries \<Rightarrow>
             if entries \<noteq> [] then
               (case generate_release_ini remote w cat entries output_path of
                  Inl err \<Rightarrow> Inl err
                | Inr res \<Rightarrow> Inr (snd res, all_results @ [fst res]))
             else Inr (w, all_results))
      else Inr (w, all_results))"

definition main :: "api \<Rightarrow> world \<Rightarrow> error + (world \<times> category_result list)" where
  "main remote w =
     (case process_category remote ''sysmodules'' ''include/sysmodules/sysmodules.ini''
             ''include/sysmodules/RELEASE_SM.ini'' (w, []) of
        Inl err \<Rightarrow> Inl err
      | Inr s1 \<Rightarrow>
     (case process_category remote ''overlays'' ''include/overlays/overlays.ini''
             ''include/overlays/RELEASE_OV.ini'' s1 of
        Inl err \<Rightarrow> Inl err
      | Inr s2 \<Rightarrow>
     (case process_category remote ''apps'' ''include/apps/apps.ini''
             ''include/apps/RELEASE_APPS.ini'' s2 of
        Inl err \<Rightarrow> Inl err
      | Inr s3 \<Rightarrow>
          process_category remote ''emulatoren'' ''include/emulatoren/emulatoren.ini''
             ''include/emulatoren/RELEASE_EM.ini'' s3)))"

text \<open>
  The form \<open>.../repos/{O}/{R}/releases...\<close> of a release-listing URL: \<open>pre\<close> is the text
  before \<open>/repos/\<close>, \<open>ow\<close> and \<open>rp\<close> are non-empty and have no \<open>/\<close>.
\<close>

definition is_release_url :: "string \<Rightarrow> string \<Rightarrow> string \<Rightarrow> string \<Rightarrow> string \<Rightarrow> bool" where
  "is_release_url u pre ow rp suf \<longleftrightarrow>
     u = pre @ ''/repos/'' @ ow @ ''/'' @ rp @ ''/releases'' @ suf
     \<and> ow \<noteq> [] \<and> CHR ''/'' \<notin> set ow \<and> rp \<noteq> [] \<and> CHR ''/'' \<notin> set rp"

section \<open>Names and versions that survive the file format\<close>

text \<open>
  A key that the parser reads back as it was written: not empty, no white space at either
  end, not starting like a comment or a section header, and free of delimiters and line
  breaks. A value: no white space at either end and no line breaks.
\<close>

definition plain_key :: "string \<Rightarrow> bool" where
  "plain_key k \<longleftrightarrow>
     k \<noteq> [] \<and> \<not> py_isspace (hd k) \<and> \<not> py_isspace (last k)
     \<and> hd k \<notin> {CHR ''#'', CHR '';'', CHR ''[''}
     \<and> set k \<inter> {CHR ''='', CHR '':'', CHR 0x0A, CHR 0x0D} = {}"

definition plain_value :: "string \<Rightarrow> bool" where
  "plain_value v \<longleftrightarrow>
     (v = [] \<or> (\<not> py_isspace (hd v) \<and> \<not> py_isspace (last v)))
     \<and> set v \<inter> {CHR 0x0A, CHR 0x0D} = {}"

text \<open>The line \<open>key=value\<close> of an option, without its line break.\<close>

definition option_line :: "string \<times> string \<Rightarrow> string" where
  "option_line kv = fst kv @ ''='' @ snd kv"

text \<open>An ordered mapping of such keys, each occurring once, to such values.\<close>

definition plain_items :: "(string \<times> string) list \<Rightarrow> bool" where
  "plain_items items \<longleftrightarrow>
     distinct (map fst items) \<and> (\<forall>kv\<in>set items. plain_key (fst kv) \<and> plain_value (snd kv))"

text \<open>Whether the request for an entry gives a tag that passes the test \<open>if tag:\<close>.\<close>

definition fetched :: "api \<Rightarrow> entry \<Rightarrow> bool" where
  "fetched remote e = truthy (get_latest_tag remote (owner e) (repo e))"

section \<open>A small remote side and entries to run the definitions on\<close>

definition example_remote :: api where
  "example_remote u =
     (if u = ''https://api.github.com/repos/foo/bar/releases?per_page=1''
      then Releases [[''tag_name'' \<mapsto> JStr ''v2.0.0'']]
      else if u = ''https://api.github.com/repos/foo/untagged/releases?per_page=1''
      then Releases [Map.empty]
      else HTTPError 404)"

definition example_entries :: "entry list" where
  "example_entries =
     [\<lparr>name = ''MyModule'', owner = ''foo'', repo = ''bar'',
       url = ''https://api.github.com/repos/foo/bar/releases?per_page=1''\<rparr>,
      \<lparr>name = ''Gone'', owner = ''foo'', repo = ''gone'',
       url = ''https://api.github.com/repos/foo/gone/releases?per_page=1''\<rparr>]"

definition empty_world :: world where
  "empty_world = \<lparr>files = Map.empty, written = []\<rparr>"

definition untagged_entry :: entry where
  "untagged_entry = \<lparr>name = ''Nightly'', owner = ''foo'', repo = ''untagged'',
       url = ''https://api.github.com/repos/foo/untagged/releases?per_page=1''\<rparr>"

text \<open>An input file with three sections, the second without a URL.\<close>

definition example_ini :: string where
  "example_ini =
     ''[MyModule]'' @ [CHR 0x0A]
     @ ''url=https://api.github.com/repos/foo/bar/releases?per_page=1'' @ [CHR 0x0A]
     @ ''[Notes]'' @ [CHR 0x0A]
     @ ''text=no link here'' @ [CHR 0x0A]
     @ ''[Gone]'' @ [CHR 0x0A]
     @ ''url=https://api.github.com/repos/foo/gone/releases?per_page=1'' @ [CHR 0x0A]"

definition example_world :: world where
  "example_world = \<lparr>files = [''include/apps/apps.ini'' \<mapsto> example_ini], written = []\<rparr>"

text \<open>
  A remote side whose tags end in a percent sign, and the example file as the input of the
  first category.
\<close>

definition percent_remote :: api where
  "percent_remote u = Releases [[''tag_name'' \<mapsto> JStr ''v100%'']]"

definition sysmodules_world :: world where
  "sysmodules_world =
     \<lparr>files = [''include/sysmodules/sysmodules.ini'' \<mapsto> example_ini], written = []\<rparr>"

text \<open>Whether \<open>parse_ini_file\<close> extracts at least one entry from a file.\<close>

definition has_entries :: "world \<Rightarrow> string \<Rightarrow> bool" where
  "has_entries w input_path \<longleftrightarrow>
     (\<exists>entries. parse_ini_file w input_path = Inr entries \<and> entries \<noteq> [])"

section \<open>Properties of the tag normalisation\<close>

lemma split_acc_nonempty: "split_acc sep cur s \<noteq> []"
  by (induction s arbitrary: cur) auto

lemma lstrip_chars_id: "s = [] \<or> hd s \<notin> cs \<Longrightarrow> lstrip_chars cs s = s"
  by (cases s) (auto simp: lstrip_chars_def)

text \<open>
  C1. The length bound of 30 fails in the commit-hash branch: a tag whose second-to-last
  dash-separated part has 40 characters and whose last part has 25 is rebuilt as that
  part, a dash and 7 characters, 48 characters in all.
\<close>

theorem clean_tag_exceeds_30:
  "clean_tag (replicate 40 (CHR ''a'') @ ''-'' @ replicate 25 (CHR ''b''))
     = replicate 40 (CHR ''a'') @ ''-'' @ replicate 7 (CHR ''b'')
   \<and> length (clean_tag (replicate 40 (CHR ''a'') @ ''-'' @ replicate 25 (CHR ''b''))) = 48"
  by code_simp

text \<open>
  C7. A string of at most 30 characters that does not begin with \<open>v\<close> is returned
  unchanged by the tag normalisation.
\<close>

theorem clean_tag_idempotent:
  assumes "length s \<le> 30" and "s = [] \<or> hd s \<noteq> CHR ''v''"
  shows "clean_tag s = s"
proof -
  have "lstrip_chars {CHR ''v''} s = s"
    using assms(2) by (intro lstrip_chars_id) simp
  with assms(1) show ?thesis
    by (simp add: clean_tag_def)
qed

theorem clean_tag_idempotent_witness:
  "length ''2.0.0-rc1'' \<le> 30 \<and> (''2.0.0-rc1'' = [] \<or> hd ''2.0.0-rc1'' \<noteq> CHR ''v'')
   \<and> clean_tag ''2.0.0-rc1'' = ''2.0.0-rc1''"
  using clean_tag_idempotent [of "''2.0.0-rc1''"] by simp

text \<open>
  Outside the commit-hash branch the result has at most 30 characters: a longer result
  needs a dash, more than one part and a last part of more than 20 characters.
\<close>

lemma clean_tag_long_only_in_hash_branch:
  assumes "length (clean_tag tag) > 30"
  shows "CHR ''-'' \<in> set (lstrip_chars {CHR ''v''} tag)
     \<and> length (split (CHR ''-'') (lstrip_chars {CHR ''v''} tag)) > 1
     \<and> length (last (split (CHR ''-'') (lstrip_chars {CHR ''v''} tag))) > 20"
  using assms by (simp add: clean_tag_def Let_def split: if_splits)

section \<open>Properties of the loop over the entries\<close>

lemma config_set_single:
  assumes "config_set \<lparr>defaults = [], sections = [(sn, items)]\<rparr> sn k v = Inr c"
    and "sn \<noteq> []" and "sn \<noteq> ''DEFAULT''"
  shows "c = \<lparr>defaults = [], sections = [(sn, AList.update k v items)]\<rparr>"
  using assms by (simp add: config_set_def split: if_splits)

lemma process_entry_fetched:
  assumes "process_entry remote sn st e = Inr st'" and "fetched remote e"
    and "cfg st = \<lparr>defaults = [], sections = [(sn, items)]\<rparr>"
    and "sn \<noteq> []" and "sn \<noteq> ''DEFAULT''"
  shows "\<exists>v. st' = st\<lparr>cfg := \<lparr>defaults = [], sections = [(sn, AList.update (name e) v items)]\<rparr>,
                      success_count := success_count st + 1\<rparr>"
  using assms
  by (auto simp: process_entry_def fetched_def split: option.splits sum.splits if_splits
           dest!: config_set_single)

lemma process_entry_not_fetched:
  assumes "\<not> fetched remote e"
  shows "process_entry remote sn st e =
           Inr (st\<lparr>failure_count := failure_count st + 1,
                   failed_entries := failed_entries st @ [failed_label e]\<rparr>)"
  using assms by (auto simp: process_entry_def fetched_def split: option.splits)

lemma process_entries_account:
  assumes "process_entries remote sn st es = Inr st'"
    and "cfg st = \<lparr>defaults = [], sections = [(sn, items)]\<rparr>"
    and "sn \<noteq> []" and "sn \<noteq> ''DEFAULT''"
  shows "\<exists>items'. cfg st' = \<lparr>defaults = [], sections = [(sn, items')]\<rparr>
           \<and> fst ` set items' = fst ` set items \<union> name ` {e \<in> set es. fetched remote e}
           \<and> success_count st' = success_count st + length (filter (fetched remote) es)
           \<and> failure_count st' = failure_count st + length (filter (\<lambda>e. \<not> fetched remote e) es)
           \<and> failed_entries st' =
               failed_entries st @ map failed_label (filter (\<lambda>e. \<not> fetched remote e) es)"
  using assms
proof (induction es arbitrary: st items)
  case Nil
  then show ?case by simp
next
  case (Cons e es)
  from Cons.prems(1) obtain st1 where
    step: "process_entry remote sn st e = Inr st1" and
    rest: "process_entries remote sn st1 es = Inr st'"
    by (auto split: sum.splits)
  show ?case
  proof (cases "fetched remote e")
    case True
    from process_entry_fetched [OF step True Cons.prems(2) Cons.prems(3) Cons.prems(4)]
    obtain v where st1: "st1 = st\<lparr>cfg := \<lparr>defaults = [], sections = [(sn, AList.update (name e) v items)]\<rparr>,
                      success_count := success_count st + 1\<rparr>" by blast
    then have c1: "cfg st1 = \<lparr>defaults = [], sections = [(sn, AList.update (name e) v items)]\<rparr>"
      by simp
    from Cons.IH [OF rest c1 Cons.prems(3) Cons.prems(4)] obtain items' where
      "cfg st' = \<lparr>defaults = [], sections = [(sn, items')]\<rparr>"
      "fst ` set items' = fst ` set (AList.update (name e) v items) \<union> name ` {e \<in> set es. fetched remote e}"
      "success_count st' = success_count st1 + length (filter (fetched remote) es)"
      "failure_count st' = failure_count st1 + length (filter (\<lambda>e. \<not> fetched remote e) es)"
      "failed_entries st' =
               failed_entries st1 @ map failed_label (filter (\<lambda>e. \<not> fetched remote e) es)"
      by blast
    with True st1 show ?thesis
      by (auto simp: dom_update)
  next
    case False
    with step have st1: "st1 = st\<lparr>failure_count := failure_count st + 1,
                   failed_entries := failed_entries st @ [failed_label e]\<rparr>"
      by (simp add: process_entry_not_fetched)
    then have c1: "cfg st1 = \<lparr>defaults = [], sections = [(sn, items)]\<rparr>"
      using Cons.prems(2) by simp
    from Cons.IH [OF rest c1 Cons.prems(3) Cons.prems(4)] obtain items' where
      "cfg st' = \<lparr>defaults = [], sections = [(sn, items')]\<rparr>"
      "fst ` set items' = fst ` set items \<union> name ` {e \<in> set es. fetched remote e}"
      "success_count st' = success_count st1 + length (filter (fetched remote) es)"
      "failure_count st' = failure_count st1 + length (filter (\<lambda>e. \<not> fetched remote e) es)"
      "failed_entries st' =
               failed_entries st1 @ map failed_label (filter (\<lambda>e. \<not> fetched remote e) es)"
      by blast
    with False st1 show ?thesis
      by auto
  qed
qed

lemma section_name_of_regular: "section_name_of cat \<noteq> [] \<and> section_name_of cat \<noteq> ''DEFAULT''"
  by (simp add: section_name_of_def)

text \<open>
  C3. When \<open>generate_release_ini\<close> returns, every entry is counted once: the entries whose
  request gave a usable tag are the successes and their names are the keys of the written
  section; the others are the failures, listed in order in the failed entries; the two counts
  add up to the total, the number of entries.
\<close>

theorem generate_release_ini_accounts:
  assumes "generate_release_ini remote w cat entries output_path = Inr (r, w')"
  shows "total r = length entries \<and> success r + failed r = total r
     \<and> success r = length (filter (fetched remote) entries)
     \<and> failed r = length (filter (\<lambda>e. \<not> fetched remote e) entries)
     \<and> failed_list r = map failed_label (filter (\<lambda>e. \<not> fetched remote e) entries)
     \<and> (\<exists>items. files w' output_path =
            Some (config_write \<lparr>defaults = [], sections = [(section_name_of cat, items)]\<rparr>)
          \<and> fst ` set items = name ` {e \<in> set entries. fetched remote e})"
proof -
  let ?sn = "section_name_of cat"
  let ?c0 = "\<lparr>defaults = [], sections = [(?sn, [])]\<rparr>"
  let ?st0 = "\<lparr>cfg = ?c0, success_count = 0, failure_count = 0, failed_entries = []\<rparr>"
  have add: "add_section new_config ?sn = Inr ?c0"
    using section_name_of_regular [of cat] by (simp add: add_section_def new_config_def)
  from assms add obtain st where
    loop: "process_entries remote ?sn ?st0 entries = Inr st" and
    r: "r = \<lparr>category = cat, total = length entries, success = success_count st,
             failed = failure_count st, failed_list = failed_entries st\<rparr>" and
    w': "w' = write_file w output_path (config_write (cfg st))"
    by (auto simp: generate_release_ini_def Let_def split: sum.splits)
  have c0: "cfg ?st0 = \<lparr>defaults = [], sections = [(?sn, [])]\<rparr>" by simp
  from process_entries_account [OF loop c0] section_name_of_regular [of cat]
  obtain items where
    i1: "cfg st = \<lparr>defaults = [], sections = [(?sn, items)]\<rparr>" and
    i2: "fst ` set items = name ` {e \<in> set entries. fetched remote e}" and
    i3: "success_count st = length (filter (fetched remote) entries)" and
    i4: "failure_count st = length (filter (\<lambda>e. \<not> fetched remote e) entries)" and
    i5: "failed_entries st = map failed_label (filter (\<lambda>e. \<not> fetched remote e) entries)"
    by auto
  have part: "length (filter (fetched remote) entries)
      + length (filter (\<lambda>e. \<not> fetched remote e) entries) = length entries"
    by (rule sum_length_filter_compl)
  have fl: "files w' output_path = Some (config_write \<lparr>defaults = [], sections = [(?sn, items)]\<rparr>)"
    using w' i1 by (simp add: write_file_def)
  from r i3 i4 i5 part fl i2 show ?thesis
    by auto
qed

text \<open>The run of the two example entries, used to instantiate the theorems.\<close>

lemma example_run:
  "generate_release_ini example_remote empty_world ''apps'' example_entries
       ''include/apps/RELEASE_APPS.ini''
   = Inr (\<lparr>category = ''apps'', total = 2, success = 1, failed = 1,
           failed_list = [''Gone (foo/gone)'']\<rparr>,
          write_file empty_world ''include/apps/RELEASE_APPS.ini''
            (''[Versions]'' @ [CHR 0x0A] @ ''MyModule=2.0.0'' @ [CHR 0x0A, CHR 0x0A]))"
  by (simp add: generate_release_ini_def section_name_of_def add_section_def new_config_def
      example_entries_def process_entry_def get_latest_tag_def GITHUB_API_def example_remote_def
      dict_get_def clean_tag_def lstrip_chars_def config_set_def valid_interpolation_def
      match_key_def failed_label_def config_write_def write_section_def write_option_def)

theorem generate_release_ini_accounts_witness:
  "generate_release_ini example_remote empty_world ''apps'' example_entries
       ''include/apps/RELEASE_APPS.ini''
   = Inr (\<lparr>category = ''apps'', total = 2, success = 1, failed = 1,
           failed_list = [''Gone (foo/gone)'']\<rparr>,
          write_file empty_world ''include/apps/RELEASE_APPS.ini''
            (''[Versions]'' @ [CHR 0x0A] @ ''MyModule=2.0.0'' @ [CHR 0x0A, CHR 0x0A]))
   \<and> length example_entries = 2
   \<and> filter (fetched example_remote) example_entries = [hd example_entries]"
  using generate_release_ini_accounts [OF example_run] example_run
  by (simp add: example_entries_def fetched_def get_latest_tag_def GITHUB_API_def
        example_remote_def dict_get_def)

text \<open>
  C2, as the claim states it, fails: the category \<open>emulators\<close> is not one the code knows (it
  tests for \<open>emulatoren\<close>), so its section is \<open>Release Info\<close>.
\<close>

theorem section_name_of_emulators:
  "section_name_of ''emulators'' = ''Release Info'' \<and> section_name_of ''emulators'' \<noteq> ''Versions''
   \<and> section_name_of ''emulatoren'' = ''Versions''"
  by (simp add: section_name_of_def)

text \<open>
  C2, amended. The file written by \<open>generate_release_ini\<close> is one section whose header is
  \<open>Versions\<close> for the categories \<open>sysmodules\<close>, \<open>overlays\<close>, \<open>apps\<close> and \<open>emulatoren\<close>, and
  \<open>Release Info\<close> for every other category.
\<close>

theorem generate_release_ini_header:
  assumes "generate_release_ini remote w cat entries output_path = Inr (r, w')"
  shows "\<exists>items. files w' output_path =
           Some (''['' @
                 (if cat \<in> {''sysmodules'', ''overlays'', ''apps'', ''emulatoren''}
                  then ''Versions'' else ''Release Info'')
                 @ '']'' @ [CHR 0x0A] @ concat (map write_option items) @ [CHR 0x0A])"
proof -
  let ?sn = "section_name_of cat"
  let ?c0 = "\<lparr>defaults = [], sections = [(?sn, [])]\<rparr>"
  let ?st0 = "\<lparr>cfg = ?c0, success_count = 0, failure_count = 0, failed_entries = []\<rparr>"
  have add: "add_section new_config ?sn = Inr ?c0"
    using section_name_of_regular [of cat] by (simp add: add_section_def new_config_def)
  from assms add obtain st where
    loop: "process_entries remote ?sn ?st0 entries = Inr st" and
    w': "w' = write_file w output_path (config_write (cfg st))"
    by (auto simp: generate_release_ini_def Let_def split: sum.splits)
  have c0: "cfg ?st0 = \<lparr>defaults = [], sections = [(?sn, [])]\<rparr>" by simp
  from process_entries_account [OF loop c0] section_name_of_regular [of cat]
  obtain items where i1: "cfg st = \<lparr>defaults = [], sections = [(?sn, items)]\<rparr>"
    by auto
  have "files w' output_path = Some (write_section ?sn items)"
    using w' i1 by (simp add: write_file_def config_write_def)
  moreover have "?sn = (if cat \<in> {''sysmodules'', ''overlays'', ''apps'', ''emulatoren''}
                  then ''Versions'' else ''Release Info'')"
    by (simp add: section_name_of_def)
  ultimately show ?thesis
    unfolding write_section_def by auto
qed

theorem generate_release_ini_header_witness:
  "generate_release_ini example_remote empty_world ''emulatoren'' example_entries
       ''include/emulatoren/RELEASE_EM.ini''
   = Inr (\<lparr>category = ''emulatoren'', total = 2, success = 1, failed = 1,
           failed_list = [''Gone (foo/gone)'']\<rparr>,
          write_file empty_world ''include/emulatoren/RELEASE_EM.ini''
            (''[Versions]'' @ [CHR 0x0A] @ ''MyModule=2.0.0'' @ [CHR 0x0A, CHR 0x0A]))
   \<and> (\<exists>items. files (write_file empty_world ''include/emulatoren/RELEASE_EM.ini''
            (''[Versions]'' @ [CHR 0x0A] @ ''MyModule=2.0.0'' @ [CHR 0x0A, CHR 0x0A]))
            ''include/emulatoren/RELEASE_EM.ini''
         = Some (''[Versions]'' @ [CHR 0x0A] @ concat (map write_option items) @ [CHR 0x0A]))"
proof -
  have run: "generate_release_ini example_remote empty_world ''emulatoren'' example_entries
       ''include/emulatoren/RELEASE_EM.ini''
   = Inr (\<lparr>category = ''emulatoren'', total = 2, success = 1, failed = 1,
           failed_list = [''Gone (foo/gone)'']\<rparr>,
          write_file empty_world ''include/emulatoren/RELEASE_EM.ini''
            (''[Versions]'' @ [CHR 0x0A] @ ''MyModule=2.0.0'' @ [CHR 0x0A, CHR 0x0A]))"
    by (simp add: generate_release_ini_def section_name_of_def add_section_def new_config_def
      example_entries_def process_entry_def get_latest_tag_def GITHUB_API_def example_remote_def
      dict_get_def clean_tag_def lstrip_chars_def config_set_def valid_interpolation_def
      match_key_def failed_label_def config_write_def write_section_def write_option_def)
  from generate_release_ini_header [OF run] run show ?thesis
    by simp
qed

text \<open>
  C6. When the request for an entry ends in an HTTP error (404, 403 or any other status) or
  in another exception, \<open>get_latest_tag\<close> returns \<open>None\<close>, and the round of the loop for
  that entry leaves the configuration and the success counter as they are, adds one to the
  failure counter and appends \<open>name (owner/repo)\<close> to the failed entries.
\<close>

theorem fetch_error_is_failure:
  assumes "remote (GITHUB_API @ ''/'' @ owner e @ ''/'' @ repo e @ ''/releases?per_page=1'')
             = HTTPError code
         \<or> remote (GITHUB_API @ ''/'' @ owner e @ ''/'' @ repo e @ ''/releases?per_page=1'')
             = OtherException"
  shows "get_latest_tag remote (owner e) (repo e) = None
     \<and> process_entry remote section_name st e =
         Inr \<lparr>cfg = cfg st, success_count = success_count st,
              failure_count = failure_count st + 1,
              failed_entries = failed_entries st @ [name e @ '' ('' @ owner e @ ''/'' @ repo e @ '')'']\<rparr>"
  using assms by (auto simp: get_latest_tag_def process_entry_def failed_label_def)

theorem fetch_error_is_failure_witness:
  "example_remote (GITHUB_API @ ''/'' @ owner (example_entries ! 1) @ ''/''
       @ repo (example_entries ! 1) @ ''/releases?per_page=1'') = HTTPError 404
   \<and> get_latest_tag example_remote (owner (example_entries ! 1)) (repo (example_entries ! 1)) = None
   \<and> process_entry example_remote ''Versions''
        \<lparr>cfg = \<lparr>defaults = [], sections = [(''Versions'', [(''MyModule'', ''2.0.0'')])]\<rparr>,
         success_count = 1, failure_count = 0, failed_entries = []\<rparr> (example_entries ! 1)
      = Inr \<lparr>cfg = \<lparr>defaults = [], sections = [(''Versions'', [(''MyModule'', ''2.0.0'')])]\<rparr>,
             success_count = 1, failure_count = 1, failed_entries = [''Gone (foo/gone)'']\<rparr>"
proof -
  have h: "example_remote (GITHUB_API @ ''/'' @ owner (example_entries ! 1) @ ''/''
       @ repo (example_entries ! 1) @ ''/releases?per_page=1'') = HTTPError 404"
    by (simp add: example_remote_def example_entries_def GITHUB_API_def)
  from fetch_error_is_failure [of example_remote "example_entries ! 1" 404 "''Versions''"
      "\<lparr>cfg = \<lparr>defaults = [], sections = [(''Versions'', [(''MyModule'', ''2.0.0'')])]\<rparr>,
         success_count = 1, failure_count = 0, failed_entries = []\<rparr>"] h
  show ?thesis by (simp add: example_entries_def)
qed

text \<open>
  C10. When the first release object has neither \<open>tag_name\<close> nor \<open>name\<close>, \<open>get_latest_tag\<close>
  returns the empty string, not \<open>None\<close>, and the round of the loop treats the entry as a
  failure: configuration and success counter unchanged, failure counter plus one, the
  entry appended to the failed entries.
\<close>

theorem untagged_release_is_failure:
  assumes "remote (GITHUB_API @ ''/'' @ owner e @ ''/'' @ repo e @ ''/releases?per_page=1'')
             = Releases (r # rs)"
    and "r ''tag_name'' = None" and "r ''name'' = None"
  shows "get_latest_tag remote (owner e) (repo e) = Some []
     \<and> process_entry remote section_name st e =
         Inr \<lparr>cfg = cfg st, success_count = success_count st,
              failure_count = failure_count st + 1,
              failed_entries = failed_entries st @ [name e @ '' ('' @ owner e @ ''/'' @ repo e @ '')'']\<rparr>"
  using assms by (auto simp: get_latest_tag_def process_entry_def failed_label_def dict_get_def)

theorem untagged_release_is_failure_witness:
  "example_remote (GITHUB_API @ ''/'' @ owner untagged_entry @ ''/'' @ repo untagged_entry
        @ ''/releases?per_page=1'') = Releases [Map.empty]
   \<and> get_latest_tag example_remote (owner untagged_entry) (repo untagged_entry) = Some []
   \<and> process_entry example_remote ''Versions''
        \<lparr>cfg = \<lparr>defaults = [], sections = [(''Versions'', [])]\<rparr>,
         success_count = 0, failure_count = 0, failed_entries = []\<rparr> untagged_entry
      = Inr \<lparr>cfg = \<lparr>defaults = [], sections = [(''Versions'', [])]\<rparr>,
             success_count = 0, failure_count = 1, failed_entries = [''Nightly (foo/untagged)'']\<rparr>"
proof -
  have h: "example_remote (GITHUB_API @ ''/'' @ owner untagged_entry @ ''/'' @ repo untagged_entry
        @ ''/releases?per_page=1'') = Releases [Map.empty]"
    by (simp add: example_remote_def untagged_entry_def GITHUB_API_def)
  from untagged_release_is_failure [of example_remote untagged_entry Map.empty "[]" "''Versions''"
      "\<lparr>cfg = \<lparr>defaults = [], sections = [(''Versions'', [])]\<rparr>,
         success_count = 0, failure_count = 0, failed_entries = []\<rparr>"] h
  show ?thesis by (simp add: untagged_entry_def)
qed


section \<open>Properties of \<open>extract_repo_from_url\<close>\<close>

lemma takeWhile_run: "c \<notin> set xs \<Longrightarrow> takeWhile (\<lambda>x. x \<noteq> c) (xs @ c # ys) = xs"
  by (induction xs) auto

lemma dropWhile_run: "c \<notin> set xs \<Longrightarrow> dropWhile (\<lambda>x. x \<noteq> c) (xs @ c # ys) = c # ys"
  by (induction xs) auto

lemma match_repo_complete:
  assumes "CHR ''/'' \<notin> set ow" "ow \<noteq> []" "CHR ''/'' \<notin> set rp" "rp \<noteq> []"
  shows "match_repo (''/repos/'' @ ow @ ''/'' @ rp @ ''/releases'' @ suf) = Some (ow, rp)"
proof -
  have t1: "takeWhile (\<lambda>c. c \<noteq> CHR ''/'') (ow @ CHR ''/'' # rp @ ''/releases'' @ suf) = ow"
    using assms(1) by (rule takeWhile_run)
  have d1: "dropWhile (\<lambda>c. c \<noteq> CHR ''/'') (ow @ CHR ''/'' # rp @ ''/releases'' @ suf)
             = CHR ''/'' # rp @ ''/releases'' @ suf"
    using assms(1) by (rule dropWhile_run)
  have t2: "takeWhile (\<lambda>c. c \<noteq> CHR ''/'') (rp @ CHR ''/'' # ''releases'' @ suf) = rp"
    using assms(3) by (rule takeWhile_run)
  have d2: "dropWhile (\<lambda>c. c \<noteq> CHR ''/'') (rp @ CHR ''/'' # ''releases'' @ suf)
             = CHR ''/'' # ''releases'' @ suf"
    using assms(3) by (rule dropWhile_run)
  show ?thesis
    using assms(2,4) t1 d1 t2 d2 by (simp add: match_repo_def)
qed

lemma match_repo_sound:
  assumes "match_repo s = Some (ow, rp)"
  shows "\<exists>suf. is_release_url s [] ow rp suf"
proof -
  let ?P = "\<lambda>c. c \<noteq> CHR ''/''"
  from assms have p: "prefix ''/repos/'' s"
    by (auto simp: match_repo_def split: if_splits)
  then obtain t where s: "s = ''/repos/'' @ t"
    by (auto simp: prefix_def)
  then have t: "drop 7 s = t" by simp
  from assms p t obtain x t2 where
    d1: "dropWhile ?P t = x # t2" and
    g1: "ow = takeWhile ?P t" "ow \<noteq> []" and
    g2: "rp = takeWhile ?P t2" "rp \<noteq> []" and
    p2: "prefix ''/releases'' (dropWhile ?P t2)"
    by (auto simp: match_repo_def Let_def split: if_splits list.splits)
  from d1 have x: "x = CHR ''/''"
    using hd_dropWhile [of ?P t] by auto
  from p2 obtain suf where d2: "dropWhile ?P t2 = ''/releases'' @ suf"
    by (auto simp: prefix_def)
  have "t = takeWhile ?P t @ dropWhile ?P t" by simp
  also have "\<dots> = ow @ CHR ''/'' # t2" using g1 d1 x by simp
  also have "t2 = takeWhile ?P t2 @ dropWhile ?P t2" by simp
  then have "ow @ CHR ''/'' # t2 = ow @ CHR ''/'' # rp @ ''/releases'' @ suf"
    using g2 d2 by simp
  finally have "t = ow @ ''/'' @ rp @ ''/releases'' @ suf" by simp
  moreover have "CHR ''/'' \<notin> set ow" "CHR ''/'' \<notin> set rp"
    using g1 g2 by (auto dest: set_takeWhileD)
  ultimately show ?thesis
    using s g1 g2 by (auto simp: is_release_url_def)
qed

lemma extract_repo_Some_iff:
  "extract_repo_from_url u = Some p \<longleftrightarrow>
     (\<exists>k\<le>length u. match_repo (drop k u) = Some p \<and> (\<forall>j<k. match_repo (drop j u) = None))"
proof (induction u)
  case Nil
  then show ?case by (simp add: match_repo_def)
next
  case (Cons c cs)
  show ?case
  proof (cases "match_repo (c # cs)")
    case (Some q)
    then have "extract_repo_from_url (c # cs) = Some q" by simp
    moreover have "(\<exists>k\<le>length (c # cs). match_repo (drop k (c # cs)) = Some p
        \<and> (\<forall>j<k. match_repo (drop j (c # cs)) = None)) \<longleftrightarrow> q = p"
    proof
      assume "\<exists>k\<le>length (c # cs). match_repo (drop k (c # cs)) = Some p
        \<and> (\<forall>j<k. match_repo (drop j (c # cs)) = None)"
      then obtain k where k: "match_repo (drop k (c # cs)) = Some p"
        "\<forall>j<k. match_repo (drop j (c # cs)) = None" by blast
      have "k = 0"
      proof (rule ccontr)
        assume "k \<noteq> 0"
        then have "match_repo (drop 0 (c # cs)) = None" using k(2) by blast
        with Some show False by simp
      qed
      with k Some show "q = p" by simp
    next
      assume "q = p"
      with Some have "match_repo (drop 0 (c # cs)) = Some p \<and> (\<forall>j<0. match_repo (drop j (c # cs)) = None)"
        by simp
      then show "\<exists>k\<le>length (c # cs). match_repo (drop k (c # cs)) = Some p
        \<and> (\<forall>j<k. match_repo (drop j (c # cs)) = None)" by blast
    qed
    ultimately show ?thesis by auto
  next
    case None
    then have e: "extract_repo_from_url (c # cs) = extract_repo_from_url cs" by simp
    have "(\<exists>k\<le>length (c # cs). match_repo (drop k (c # cs)) = Some p
        \<and> (\<forall>j<k. match_repo (drop j (c # cs)) = None))
      \<longleftrightarrow> (\<exists>k\<le>length cs. match_repo (drop k cs) = Some p \<and> (\<forall>j<k. match_repo (drop j cs) = None))"
      (is "?L \<longleftrightarrow> ?R")
    proof
      assume ?L
      then obtain k where k: "k \<le> length (c # cs)" "match_repo (drop k (c # cs)) = Some p"
        "\<forall>j<k. match_repo (drop j (c # cs)) = None" by blast
      with None obtain k' where k': "k = Suc k'" by (cases k) auto
      have "\<forall>j<k'. match_repo (drop j cs) = None"
      proof (intro allI impI)
        fix j assume "j < k'"
        then have "Suc j < k" using k' by simp
        with k(3) have "match_repo (drop (Suc j) (c # cs)) = None" by blast
        then show "match_repo (drop j cs) = None" by simp
      qed
      with k k' show ?R by auto
    next
      assume ?R
      then obtain k where k: "k \<le> length cs" "match_repo (drop k cs) = Some p"
        "\<forall>j<k. match_repo (drop j cs) = None" by blast
      have "\<forall>j<Suc k. match_repo (drop j (c # cs)) = None"
      proof (intro allI impI)
        fix j assume j: "j < Suc k"
        show "match_repo (drop j (c # cs)) = None"
        proof (cases j)
          case 0
          with None show ?thesis by simp
        next
          case (Suc j')
          with j k(3) show ?thesis by simp
        qed
      qed
      with k show ?L by (intro exI [of _ "Suc k"]) simp
    qed
    with e Cons.IH show ?thesis by simp
  qed
qed

lemma extract_repo_None_iff:
  "extract_repo_from_url u = None \<longleftrightarrow> (\<forall>k\<le>length u. match_repo (drop k u) = None)"
proof (induction u)
  case Nil
  then show ?case by (simp add: match_repo_def)
next
  case (Cons c cs)
  have split: "(\<forall>k\<le>length (c # cs). match_repo (drop k (c # cs)) = None)
     \<longleftrightarrow> match_repo (c # cs) = None \<and> (\<forall>k\<le>length cs. match_repo (drop k cs) = None)"
    (is "?L \<longleftrightarrow> ?R")
  proof
    assume l: ?L
    have "match_repo (drop 0 (c # cs)) = None" using l by blast
    moreover have "\<forall>k\<le>length cs. match_repo (drop k cs) = None"
    proof (intro allI impI)
      fix k assume "k \<le> length cs"
      then have "Suc k \<le> length (c # cs)" by simp
      with l have "match_repo (drop (Suc k) (c # cs)) = None" by blast
      then show "match_repo (drop k cs) = None" by simp
    qed
    ultimately show ?R by simp
  next
    assume r: ?R
    show ?L
    proof (intro allI impI)
      fix k assume "k \<le> length (c # cs)"
      then show "match_repo (drop k (c # cs)) = None"
        using r by (cases k) auto
    qed
  qed
  show ?case
    using Cons.IH split by (cases "match_repo (c # cs)") auto
qed

lemma is_release_url_match:
  assumes "is_release_url u pre ow rp suf"
  shows "match_repo (drop (length pre) u) = Some (ow, rp)"
proof -
  from assms have "drop (length pre) u = ''/repos/'' @ ow @ ''/'' @ rp @ ''/releases'' @ suf"
    by (simp add: is_release_url_def)
  with assms show ?thesis
    using match_repo_complete [of ow rp suf] by (simp add: is_release_url_def)
qed

lemma match_is_release_url:
  assumes "match_repo (drop k u) = Some (ow, rp)" and "k \<le> length u"
  shows "\<exists>suf. is_release_url u (take k u) ow rp suf"
proof -
  from match_repo_sound [OF assms(1)] obtain suf where
    "is_release_url (drop k u) [] ow rp suf" by blast
  then have "is_release_url (take k u @ drop k u) (take k u) ow rp suf"
    unfolding is_release_url_def by simp
  then show ?thesis by auto
qed

text \<open>
  A URL that begins with the address of the API, as every URL found by \<open>parse_ini_file\<close>
  does, gives the owner and the repository that follow it.
\<close>

lemma no_match_in_host:
  assumes "j < 22"
  shows "match_repo (drop j (''https://api.github.com'' @ rest)) = None"
proof -
  from assms have "j = 0 \<or> j = 1 \<or> j = 2 \<or> j = 3 \<or> j = 4 \<or> j = 5 \<or> j = 6 \<or> j = 7
      \<or> j = 8 \<or> j = 9 \<or> j = 10 \<or> j = 11 \<or> j = 12 \<or> j = 13 \<or> j = 14 \<or> j = 15
      \<or> j = 16 \<or> j = 17 \<or> j = 18 \<or> j = 19 \<or> j = 20 \<or> j = 21"
    by arith
  then show ?thesis
    by (elim disjE) (simp_all add: match_repo_def)
qed

lemma extract_repo_github_url:
  assumes "ow \<noteq> []" "CHR ''/'' \<notin> set ow" "rp \<noteq> []" "CHR ''/'' \<notin> set rp"
  shows "extract_repo_from_url
           (''https://api.github.com/repos/'' @ ow @ ''/'' @ rp @ ''/releases'' @ suf)
         = Some (ow, rp)"
proof -
  let ?rest = "''/repos/'' @ ow @ ''/'' @ rp @ ''/releases'' @ suf"
  let ?u = "''https://api.github.com'' @ ?rest"
  have m: "match_repo (drop 22 ?u) = Some (ow, rp)"
    using match_repo_complete [of ow rp suf] assms by simp
  have "\<forall>j<22. match_repo (drop j ?u) = None"
    using no_match_in_host [of _ ?rest] by blast
  with m have "extract_repo_from_url ?u = Some (ow, rp)"
    unfolding extract_repo_Some_iff by (intro exI [of _ 22]) simp
  then show ?thesis by simp
qed


text \<open>
  C4, as the claim states it, fails: the search returns the leftmost match. The URL below
  has the form with \<open>O = alice\<close> and \<open>R = releases\<close> after the host \<open>repos\<close>, and the
  function returns \<open>(repos, alice)\<close>.
\<close>

theorem extract_repo_from_url_not_leftmost:
  "''https://repos/repos/alice/releases/releases''
     = ''https://repos'' @ ''/repos/'' @ ''alice'' @ ''/'' @ ''releases'' @ ''/releases'' @ []
   \<and> is_release_url ''https://repos/repos/alice/releases/releases''
        ''https://repos'' ''alice'' ''releases'' []
   \<and> extract_repo_from_url ''https://repos/repos/alice/releases/releases''
        = Some (''repos'', ''alice'')
   \<and> extract_repo_from_url ''https://repos/repos/alice/releases/releases''
        \<noteq> Some (''alice'', ''releases'')"
  by code_simp

text \<open>
  C4, amended. For a string of the form \<open>.../repos/{O}/{R}/releases...\<close> in which no
  occurrence of the form starts further left, \<open>extract_repo_from_url\<close> returns \<open>(O, R)\<close>; for
  a string with no occurrence of the form it returns \<open>None\<close>.
\<close>

theorem extract_repo_from_url_leftmost:
  "(is_release_url u pre ow rp suf
      \<and> (\<forall>pre' ow' rp' suf'. is_release_url u pre' ow' rp' suf' \<longrightarrow> length pre \<le> length pre')
      \<longrightarrow> extract_repo_from_url u = Some (ow, rp))
   \<and> ((\<forall>pre' ow' rp' suf'. \<not> is_release_url u pre' ow' rp' suf')
      \<longrightarrow> extract_repo_from_url u = None)"
proof (intro conjI impI)
  assume a: "is_release_url u pre ow rp suf
      \<and> (\<forall>pre' ow' rp' suf'. is_release_url u pre' ow' rp' suf' \<longrightarrow> length pre \<le> length pre')"
  then have m: "match_repo (drop (length pre) u) = Some (ow, rp)"
    by (intro is_release_url_match [of u pre ow rp suf]) blast
  from a have len: "length pre \<le> length u"
    by (simp add: is_release_url_def)
  have "\<forall>j<length pre. match_repo (drop j u) = None"
  proof (intro allI impI)
    fix j assume j: "j < length pre"
    show "match_repo (drop j u) = None"
    proof (cases "match_repo (drop j u)")
      case None
      then show ?thesis .
    next
      case (Some q)
      obtain ow' rp' where "q = (ow', rp')" by (cases q)
      with Some j len match_is_release_url [of j u ow' rp'] obtain suf' where
        "is_release_url u (take j u) ow' rp' suf'" by auto
      with a have "length pre \<le> length (take j u)" by blast
      with j show ?thesis by simp
    qed
  qed
  with m len show "extract_repo_from_url u = Some (ow, rp)"
    unfolding extract_repo_Some_iff by blast
next
  assume n: "\<forall>pre' ow' rp' suf'. \<not> is_release_url u pre' ow' rp' suf'"
  have "\<forall>k\<le>length u. match_repo (drop k u) = None"
  proof (intro allI impI)
    fix k assume k: "k \<le> length u"
    show "match_repo (drop k u) = None"
    proof (cases "match_repo (drop k u)")
      case None
      then show ?thesis .
    next
      case (Some q)
      obtain ow' rp' where "q = (ow', rp')" by (cases q)
      with Some k match_is_release_url [of k u ow' rp'] n show ?thesis by blast
    qed
  qed
  then show "extract_repo_from_url u = None"
    unfolding extract_repo_None_iff .
qed


theorem extract_repo_from_url_leftmost_witness:
  "is_release_url ''https://api.github.com/repos/foo/bar/releases?per_page=1''
      ''https://api.github.com'' ''foo'' ''bar'' ''?per_page=1''
   \<and> extract_repo_from_url ''https://api.github.com/repos/foo/bar/releases?per_page=1''
        = Some (''foo'', ''bar'')
   \<and> extract_repo_from_url ''https://api.github.com/repos/foo'' = None"
proof -
  let ?u = "''https://api.github.com/repos/foo/bar/releases?per_page=1''"
  let ?v = "''https://api.github.com/repos/foo''"
  have form: "is_release_url ?u ''https://api.github.com'' ''foo'' ''bar'' ''?per_page=1''"
    by (simp add: is_release_url_def)
  have before: "\<forall>k\<in>set [0..<22]. match_repo (drop k ?u) = None"
    by code_simp
  have left: "\<forall>pre' ow' rp' suf'. is_release_url ?u pre' ow' rp' suf'
                \<longrightarrow> length ''https://api.github.com'' \<le> length pre'"
  proof (intro allI impI)
    fix pre' ow' rp' suf'
    assume h: "is_release_url ?u pre' ow' rp' suf'"
    have m: "match_repo (drop (length pre') ?u) = Some (ow', rp')"
      using h by (rule is_release_url_match)
    show "length ''https://api.github.com'' \<le> length pre'"
    proof (rule ccontr)
      assume "\<not> length ''https://api.github.com'' \<le> length pre'"
      then have "length pre' \<in> set [0..<22]" by simp
      with before have "match_repo (drop (length pre') ?u) = None" by blast
      with m show False by simp
    qed
  qed
  have nowhere: "\<forall>k\<in>set [0..<33]. match_repo (drop k ?v) = None"
    by code_simp
  have none: "\<forall>pre' ow' rp' suf'. \<not> is_release_url ?v pre' ow' rp' suf'"
  proof (intro allI notI)
    fix pre' ow' rp' suf'
    assume h: "is_release_url ?v pre' ow' rp' suf'"
    have m: "match_repo (drop (length pre') ?v) = Some (ow', rp')"
      using h by (rule is_release_url_match)
    from h have "length pre' \<le> length ?v"
      unfolding is_release_url_def by (metis length_append le_add1)
    then have "length pre' < 33" by simp
    then have "length pre' \<in> set [0..<33]" by simp
    with nowhere have "match_repo (drop (length pre') ?v) = None" by blast
    with m show False by simp
  qed
  from extract_repo_from_url_leftmost
         [of ?u "''https://api.github.com''" "''foo''" "''bar''" "''?per_page=1''"]
       extract_repo_from_url_leftmost [of ?v]
       form left none
  show ?thesis by blast
qed


section \<open>Properties of \<open>parse_ini_file\<close>\<close>

lemma collect_entries_eq: "collect_entries acc ms = acc @ List.map_filter section_entry ms"
  by (induction ms arbitrary: acc) (auto split: option.splits)

lemma section_entry_name: "section_entry m = Some e \<Longrightarrow> name e = fst m"
  by (auto simp: section_entry_def Let_def split: list.splits option.splits)

lemma subseq_section_names:
  "subseq (map name (List.map_filter section_entry ms)) (map fst ms)"
  by (induction ms) (auto split: option.splits dest: section_entry_name)

lemma map_filter_append:
  "List.map_filter f (xs @ ys) = List.map_filter f xs @ List.map_filter f ys"
  by (simp add: List.map_filter_def)

lemma match_github_url_iff:
  "match_github_url s \<noteq> None \<longleftrightarrow>
     (\<exists>c suf. s = ''https://api.github.com/repos/'' @ c # suf \<and> \<not> py_isspace c)"
proof
  assume "match_github_url s \<noteq> None"
  then have p: "prefix ''https://api.github.com/repos/'' s"
    and t: "takeWhile (\<lambda>c. \<not> py_isspace c) (drop 29 s) \<noteq> []"
    by (auto simp: match_github_url_def split: if_splits)
  from p obtain r where s: "s = ''https://api.github.com/repos/'' @ r"
    by (auto simp: prefix_def)
  with t have "takeWhile (\<lambda>c. \<not> py_isspace c) r \<noteq> []" by simp
  then obtain c suf where "r = c # suf" "\<not> py_isspace c"
    by (cases r) (auto split: if_splits)
  with s show "\<exists>c suf. s = ''https://api.github.com/repos/'' @ c # suf \<and> \<not> py_isspace c"
    by blast
next
  assume "\<exists>c suf. s = ''https://api.github.com/repos/'' @ c # suf \<and> \<not> py_isspace c"
  then obtain c suf where "s = ''https://api.github.com/repos/'' @ c # suf" "\<not> py_isspace c"
    by blast
  then show "match_github_url s \<noteq> None"
    by (simp add: match_github_url_def)
qed

lemma findall_github_urls_Nil:
  "(\<forall>k\<le>length s. match_github_url (drop k s) = None) \<Longrightarrow> findall_github_urls s = []"
proof (induction s)
  case Nil
  then show ?case by simp
next
  case (Cons c cs)
  from Cons.prems have h: "match_github_url (drop 0 (c # cs)) = None" by blast
  have "\<forall>k\<le>length cs. match_github_url (drop k cs) = None"
  proof (intro allI impI)
    fix k assume "k \<le> length cs"
    then have "Suc k \<le> length (c # cs)" by simp
    with Cons.prems have "match_github_url (drop (Suc k) (c # cs)) = None" by blast
    then show "match_github_url (drop k cs) = None" by simp
  qed
  with Cons.IH h show ?case by simp
qed

lemma findall_github_urls_no_match:
  assumes "\<not> (\<exists>pre c suf. s = pre @ ''https://api.github.com/repos/'' @ c # suf
                 \<and> \<not> py_isspace c)"
  shows "findall_github_urls s = []"
proof (rule findall_github_urls_Nil, intro allI impI)
  fix k assume "k \<le> length s"
  show "match_github_url (drop k s) = None"
  proof (rule ccontr)
    assume "match_github_url (drop k s) \<noteq> None"
    then obtain c suf where "drop k s = ''https://api.github.com/repos/'' @ c # suf"
      "\<not> py_isspace c"
      unfolding match_github_url_iff by blast
    then have "s = take k s @ ''https://api.github.com/repos/'' @ c # suf \<and> \<not> py_isspace c"
      by (metis append_take_drop_id)
    with assms show False by blast
  qed
qed

lemma findall_github_urls_match:
  assumes "findall_github_urls s = []"
  shows "\<not> (\<exists>pre c suf. s = pre @ ''https://api.github.com/repos/'' @ c # suf
                 \<and> \<not> py_isspace c)"
  using assms
proof (induction s rule: findall_github_urls.induct)
  case 1
  then show ?case by simp
next
  case (2 c cs)
  from "2.prems" have none: "match_github_url (c # cs) = None"
    by (auto split: option.splits)
  with "2.prems" have "findall_github_urls cs = []" by simp
  with "2.IH"(1) [OF none] have ih: "\<not> (\<exists>pre c' suf. cs = pre @ ''https://api.github.com/repos/'' @ c' # suf
                 \<and> \<not> py_isspace c')" by blast
  show ?case
  proof
    assume "\<exists>pre c' suf. c # cs = pre @ ''https://api.github.com/repos/'' @ c' # suf
                 \<and> \<not> py_isspace c'"
    then obtain pre c' suf where e: "c # cs = pre @ ''https://api.github.com/repos/'' @ c' # suf"
      and sp: "\<not> py_isspace c'" by blast
    show False
    proof (cases pre)
      case Nil
      with e sp have "match_github_url (c # cs) \<noteq> None"
        unfolding match_github_url_iff by auto
      with none show False by simp
    next
      case (Cons a pre')
      with e have "cs = pre' @ ''https://api.github.com/repos/'' @ c' # suf" by simp
      with sp ih show False by blast
    qed
  qed
qed

text \<open>
  C8. For a file that exists \<open>parse_ini_file\<close> returns a list of entries, with no error.
  The entries are those of the sections, in the order of the sections in the file. A
  section whose body has no substring matching the URL pattern (the address of the API
  followed by a character that is not white space) gives no entry: the result is the same
  as without that section.
\<close>

theorem parse_ini_file_skips:
  assumes "files w file_path = Some txt"
  shows "\<exists>entries. parse_ini_file w file_path = Inr entries
     \<and> entries = List.map_filter section_entry (finditer_sections True (universal_newlines txt))
     \<and> subseq (map name entries) (map fst (finditer_sections True (universal_newlines txt)))
     \<and> (\<forall>ms1 m ms2.
           finditer_sections True (universal_newlines txt) = ms1 @ m # ms2
           \<and> \<not> (\<exists>pre c suf. section_body True (snd m)
                                 = pre @ ''https://api.github.com/repos/'' @ c # suf
                               \<and> \<not> py_isspace c)
           \<longrightarrow> section_entry m = None \<and> entries = List.map_filter section_entry (ms1 @ ms2))"
proof -
  let ?ms = "finditer_sections True (universal_newlines txt)"
  let ?es = "List.map_filter section_entry ?ms"
  have p: "parse_ini_file w file_path = Inr ?es"
    using assms by (simp add: parse_ini_file_def collect_entries_eq)
  have skip: "section_entry m = None \<and> ?es = List.map_filter section_entry (ms1 @ ms2)"
    if "?ms = ms1 @ m # ms2"
      and "\<not> (\<exists>pre c suf. section_body True (snd m)
                = pre @ ''https://api.github.com/repos/'' @ c # suf \<and> \<not> py_isspace c)"
    for ms1 m ms2
  proof -
    from that(2) have "findall_github_urls (section_body True (snd m)) = []"
      by (rule findall_github_urls_no_match)
    then have n: "section_entry m = None"
      by (simp add: section_entry_def)
    with that(1) show ?thesis
      by (simp add: map_filter_append)
  qed
  from p skip subseq_section_names [of ?ms] show ?thesis
    by blast
qed


text \<open>The example file gives the two example entries.\<close>

lemma example_sections:
  "finditer_sections True (universal_newlines example_ini) =
     [(''MyModule'',
         [CHR 0x0A] @ ''url=https://api.github.com/repos/foo/bar/releases?per_page=1'' @ [CHR 0x0A]
         @ ''[Notes]'' @ [CHR 0x0A] @ ''text=no link here'' @ [CHR 0x0A]
         @ ''[Gone]'' @ [CHR 0x0A]
         @ ''url=https://api.github.com/repos/foo/gone/releases?per_page=1'' @ [CHR 0x0A]),
      (''Notes'',
         [CHR 0x0A] @ ''text=no link here'' @ [CHR 0x0A]
         @ ''[Gone]'' @ [CHR 0x0A]
         @ ''url=https://api.github.com/repos/foo/gone/releases?per_page=1'' @ [CHR 0x0A]),
      (''Gone'',
         [CHR 0x0A] @ ''url=https://api.github.com/repos/foo/gone/releases?per_page=1''
         @ [CHR 0x0A])]"
  by code_simp

lemma example_parse:
  "parse_ini_file example_world ''include/apps/apps.ini'' = Inr example_entries"
proof -
  have "collect_entries [] (finditer_sections True (universal_newlines example_ini))
          = example_entries"
    by code_simp
  then show ?thesis
    by (simp add: parse_ini_file_def example_world_def)
qed

theorem parse_ini_file_skips_witness:
  "files example_world ''include/apps/apps.ini'' = Some example_ini
   \<and> parse_ini_file example_world ''include/apps/apps.ini'' = Inr example_entries
   \<and> map name example_entries = [''MyModule'', ''Gone'']
   \<and> section_entry (''Notes'',
         [CHR 0x0A] @ ''text=no link here'' @ [CHR 0x0A]
         @ ''[Gone]'' @ [CHR 0x0A]
         @ ''url=https://api.github.com/repos/foo/gone/releases?per_page=1'' @ [CHR 0x0A]) = None"
proof -
  let ?r1 = "[CHR 0x0A] @ ''url=https://api.github.com/repos/foo/bar/releases?per_page=1'' @ [CHR 0x0A]
         @ ''[Notes]'' @ [CHR 0x0A] @ ''text=no link here'' @ [CHR 0x0A]
         @ ''[Gone]'' @ [CHR 0x0A]
         @ ''url=https://api.github.com/repos/foo/gone/releases?per_page=1'' @ [CHR 0x0A]"
  let ?r2 = "[CHR 0x0A] @ ''text=no link here'' @ [CHR 0x0A]
         @ ''[Gone]'' @ [CHR 0x0A]
         @ ''url=https://api.github.com/repos/foo/gone/releases?per_page=1'' @ [CHR 0x0A]"
  let ?r3 = "[CHR 0x0A] @ ''url=https://api.github.com/repos/foo/gone/releases?per_page=1''
         @ [CHR 0x0A]"
  have f: "files example_world ''include/apps/apps.ini'' = Some example_ini"
    by (simp add: example_world_def)
  have secs: "finditer_sections True (universal_newlines example_ini)
                = [(''MyModule'', ?r1)] @ (''Notes'', ?r2) # [(''Gone'', ?r3)]"
    using example_sections by simp
  have "findall_github_urls (section_body True (snd (''Notes'', ?r2))) = []"
    by code_simp
  then have nourl: "\<not> (\<exists>pre c suf. section_body True (snd (''Notes'', ?r2))
                                 = pre @ ''https://api.github.com/repos/'' @ c # suf
                               \<and> \<not> py_isspace c)"
    by (rule findall_github_urls_match)
  from parse_ini_file_skips [OF f] obtain entries where
    e: "parse_ini_file example_world ''include/apps/apps.ini'' = Inr entries" and
    sk: "\<forall>ms1 m ms2.
           finditer_sections True (universal_newlines example_ini) = ms1 @ m # ms2
           \<and> \<not> (\<exists>pre c suf. section_body True (snd m)
                                 = pre @ ''https://api.github.com/repos/'' @ c # suf
                               \<and> \<not> py_isspace c)
           \<longrightarrow> section_entry m = None \<and> entries = List.map_filter section_entry (ms1 @ ms2)"
    by blast
  from sk secs nourl have "section_entry (''Notes'', ?r2) = None"
    by blast
  moreover from e example_parse have "entries = example_entries" by simp
  ultimately show ?thesis
    using f e by (simp add: example_entries_def)
qed


section \<open>Properties of \<open>main\<close>\<close>

text \<open>
  A run of \<open>main\<close> that returns has written exactly the output files of the categories
  whose input file gave at least one entry, in the order of the categories; and when no
  request gives a tag, the file written is the section header alone.
\<close>

lemma generate_release_ini_world:
  assumes "generate_release_ini remote w cat entries output_path = Inr (r, w')"
  shows "written w' = written w @ [output_path]
     \<and> (\<forall>p. p \<noteq> output_path \<longrightarrow> files w' p = files w p)"
  using assms
  by (auto simp: generate_release_ini_def Let_def write_file_def split: sum.splits)

lemma process_category_world:
  assumes "process_category remote cat input_path output_path (w, rs) = Inr (w', rs')"
  shows "written w' = written w @ (if has_entries w input_path then [output_path] else [])
     \<and> (\<forall>p. p \<noteq> output_path \<longrightarrow> files w' p = files w p)"
proof (cases "files w input_path")
  case None
  then have "parse_ini_file w input_path = Inl FileNotFoundError"
    by (simp add: parse_ini_file_def)
  with None assms show ?thesis
    by (simp add: process_category_def has_entries_def)
next
  case (Some content)
  then obtain entries where p: "parse_ini_file w input_path = Inr entries"
    by (simp add: parse_ini_file_def)
  show ?thesis
  proof (cases "entries = []")
    case True
    with Some p assms show ?thesis
      by (simp add: process_category_def has_entries_def)
  next
    case False
    with Some p assms obtain r where
      g: "generate_release_ini remote w cat entries output_path = Inr (r, w')"
      by (auto simp: process_category_def split: sum.splits)
    from generate_release_ini_world [OF g] p False show ?thesis
      by (simp add: has_entries_def)
  qed
qed

lemma has_entries_cong:
  "files w' p = files w p \<Longrightarrow> has_entries w' p = has_entries w p"
  by (simp add: has_entries_def parse_ini_file_def)

lemma main_written:
  assumes "main remote w = Inr (w', rs)"
  shows "written w' = written w
     @ (if has_entries w ''include/sysmodules/sysmodules.ini''
        then [''include/sysmodules/RELEASE_SM.ini''] else [])
     @ (if has_entries w ''include/overlays/overlays.ini''
        then [''include/overlays/RELEASE_OV.ini''] else [])
     @ (if has_entries w ''include/apps/apps.ini''
        then [''include/apps/RELEASE_APPS.ini''] else [])
     @ (if has_entries w ''include/emulatoren/emulatoren.ini''
        then [''include/emulatoren/RELEASE_EM.ini''] else [])"
proof -
  from assms obtain w1 rs1 w2 rs2 w3 rs3 where
    s1: "process_category remote ''sysmodules'' ''include/sysmodules/sysmodules.ini''
             ''include/sysmodules/RELEASE_SM.ini'' (w, []) = Inr (w1, rs1)" and
    s2: "process_category remote ''overlays'' ''include/overlays/overlays.ini''
             ''include/overlays/RELEASE_OV.ini'' (w1, rs1) = Inr (w2, rs2)" and
    s3: "process_category remote ''apps'' ''include/apps/apps.ini''
             ''include/apps/RELEASE_APPS.ini'' (w2, rs2) = Inr (w3, rs3)" and
    s4: "process_category remote ''emulatoren'' ''include/emulatoren/emulatoren.ini''
             ''include/emulatoren/RELEASE_EM.ini'' (w3, rs3) = Inr (w', rs)"
    by (auto simp: main_def split: sum.splits)
  note a1 = process_category_world [OF s1]
  note a2 = process_category_world [OF s2]
  note a3 = process_category_world [OF s3]
  note a4 = process_category_world [OF s4]
  have f1: "files w1 ''include/overlays/overlays.ini'' = files w ''include/overlays/overlays.ini''"
    using a1 by simp
  have f2: "files w2 ''include/apps/apps.ini'' = files w ''include/apps/apps.ini''"
    using a1 a2 by simp
  have f3: "files w3 ''include/emulatoren/emulatoren.ini''
      = files w ''include/emulatoren/emulatoren.ini''"
    using a1 a2 a3 by simp
  have h1: "has_entries w1 ''include/overlays/overlays.ini''
      = has_entries w ''include/overlays/overlays.ini''"
    using f1 by (rule has_entries_cong)
  have h2: "has_entries w2 ''include/apps/apps.ini'' = has_entries w ''include/apps/apps.ini''"
    using f2 by (rule has_entries_cong)
  have h3: "has_entries w3 ''include/emulatoren/emulatoren.ini''
      = has_entries w ''include/emulatoren/emulatoren.ini''"
    using f3 by (rule has_entries_cong)
  have "written w' = written w3
     @ (if has_entries w ''include/emulatoren/emulatoren.ini''
        then [''include/emulatoren/RELEASE_EM.ini''] else [])"
    using a4 h3 by simp
  moreover have "written w3 = written w2
     @ (if has_entries w ''include/apps/apps.ini''
        then [''include/apps/RELEASE_APPS.ini''] else [])"
    using a3 h2 by simp
  moreover have "written w2 = written w1
     @ (if has_entries w ''include/overlays/overlays.ini''
        then [''include/overlays/RELEASE_OV.ini''] else [])"
    using a2 h1 by simp
  moreover have "written w1 = written w
     @ (if has_entries w ''include/sysmodules/sysmodules.ini''
        then [''include/sysmodules/RELEASE_SM.ini''] else [])"
    using a1 by simp
  ultimately show ?thesis by simp
qed

lemma process_entries_all_failed:
  assumes "\<forall>e\<in>set entries. \<not> fetched remote e"
  shows "process_entries remote sn st entries =
           Inr (st\<lparr>failure_count := failure_count st + length entries,
                   failed_entries := failed_entries st @ map failed_label entries\<rparr>)"
  using assms
proof (induction entries arbitrary: st)
  case Nil
  then show ?case by simp
next
  case (Cons e es)
  then show ?case
    by (simp add: process_entry_not_fetched)
qed

lemma generate_release_ini_all_failed:
  assumes "\<forall>e\<in>set entries. \<not> fetched remote e"
  shows "generate_release_ini remote w cat entries output_path =
           Inr (\<lparr>category = cat, total = length entries, success = 0,
                  failed = length entries, failed_list = map failed_label entries\<rparr>,
                write_file w output_path
                  (''['' @ section_name_of cat @ '']'' @ [CHR 0x0A, CHR 0x0A]))"
proof -
  have add: "add_section new_config (section_name_of cat)
      = Inr \<lparr>defaults = [], sections = [(section_name_of cat, [])]\<rparr>"
    using section_name_of_regular [of cat] by (simp add: add_section_def new_config_def)
  show ?thesis
    using process_entries_all_failed [OF assms]
    by (simp add: generate_release_ini_def add config_write_def write_section_def)
qed

text \<open>
  C9. The claim fails on a run in which \<open>config.set\<close> refuses a tag. The input file of
  \<open>sysmodules\<close> gives two entries; the tag \<open>v100%\<close> is normalised to \<open>100%\<close>, which the
  interpolation check refuses with \<open>ValueError\<close>; nothing catches it, so
  \<open>generate_release_ini\<close> and \<open>main\<close> end before the file is written.
\<close>

theorem main_aborts_on_percent:
  "parse_ini_file sysmodules_world ''include/sysmodules/sysmodules.ini'' = Inr example_entries
   \<and> example_entries \<noteq> []
   \<and> get_latest_tag percent_remote ''foo'' ''bar'' = Some ''v100%''
   \<and> generate_release_ini percent_remote sysmodules_world ''sysmodules'' example_entries
        ''include/sysmodules/RELEASE_SM.ini'' = Inl ValueError
   \<and> main percent_remote sysmodules_world = Inl ValueError"
proof -
  have c: "collect_entries [] (finditer_sections True (universal_newlines example_ini))
          = example_entries"
    by code_simp
  then have p: "parse_ini_file sysmodules_world ''include/sysmodules/sysmodules.ini''
      = Inr example_entries"
    by (simp add: parse_ini_file_def sysmodules_world_def)
  have t: "get_latest_tag percent_remote ''foo'' ''bar'' = Some ''v100%''"
    by (simp add: get_latest_tag_def percent_remote_def dict_get_def)
  have n: "\<not> valid_interpolation ''100%''"
    by code_simp
  have ct: "clean_tag ''v100%'' = ''100%''"
    by code_simp
  have g: "generate_release_ini percent_remote sysmodules_world ''sysmodules'' example_entries
        ''include/sysmodules/RELEASE_SM.ini'' = Inl ValueError"
    using t n ct
    by (simp add: generate_release_ini_def section_name_of_def add_section_def new_config_def
         example_entries_def process_entry_def config_set_def)
  have m: "main percent_remote sysmodules_world = Inl ValueError"
    using p g
    by (simp add: main_def process_category_def sysmodules_world_def example_entries_def)
  from p t g m show ?thesis
    by (simp add: example_entries_def)
qed


section \<open>Writing the manifest and reading it back\<close>

lemma isspace_LF: "py_isspace (CHR 0x0A)"
  by (simp add: py_isspace_def)

lemma not_isspace_eq: "\<not> py_isspace (CHR ''='')"
  by (simp add: py_isspace_def)

lemma not_isspace_bracket: "\<not> py_isspace (CHR ''['')" "\<not> py_isspace (CHR '']'')"
  by (simp_all add: py_isspace_def)

lemma lstrip_id: "s = [] \<or> \<not> py_isspace (hd s) \<Longrightarrow> lstrip s = s"
  by (cases s) (auto simp: lstrip_def)

lemma rstrip_id: "s = [] \<or> \<not> py_isspace (last s) \<Longrightarrow> rstrip s = s"
proof (cases "s = []")
  case True
  then show ?thesis by (simp add: rstrip_def)
next
  case False
  assume "s = [] \<or> \<not> py_isspace (last s)"
  with False have "\<not> py_isspace (hd (rev s))"
    by (simp add: hd_rev)
  with False have "dropWhile py_isspace (rev s) = rev s"
    by (cases "rev s") auto
  then show ?thesis by (simp add: rstrip_def)
qed

lemma rstrip_LF: "rstrip (s @ [CHR 0x0A]) = rstrip s"
  by (simp add: rstrip_def isspace_LF)

lemma strip_id: "s \<noteq> [] \<Longrightarrow> \<not> py_isspace (hd s) \<Longrightarrow> \<not> py_isspace (last s) \<Longrightarrow> strip s = s"
  by (simp add: strip_def lstrip_id rstrip_id)

lemma strip_line:
  assumes "s \<noteq> []" "\<not> py_isspace (hd s)" "\<not> py_isspace (last s)"
  shows "strip (s @ [CHR 0x0A]) = s"
proof -
  have "lstrip (s @ [CHR 0x0A]) = s @ [CHR 0x0A]"
    using assms by (intro lstrip_id) simp
  then show ?thesis
    using assms by (simp add: strip_def rstrip_LF rstrip_id)
qed

lemma strip_empty_line: "strip [CHR 0x0A] = []"
  by (simp add: strip_def lstrip_def rstrip_def isspace_LF)

lemma option_line_props:
  assumes "plain_key (fst kv)" "plain_value (snd kv)"
  shows "option_line kv \<noteq> []" "\<not> py_isspace (hd (option_line kv))"
    "\<not> py_isspace (last (option_line kv))" "hd (option_line kv) = hd (fst kv)"
proof -
  from assms(1) have k: "fst kv \<noteq> []" "\<not> py_isspace (hd (fst kv))"
    by (simp_all add: plain_key_def)
  then show "option_line kv \<noteq> []" "\<not> py_isspace (hd (option_line kv))"
    "hd (option_line kv) = hd (fst kv)"
    by (simp_all add: option_line_def)
  show "\<not> py_isspace (last (option_line kv))"
    using assms(2) by (auto simp: option_line_def plain_value_def not_isspace_eq)
qed

lemma write_option_line:
  assumes "CHR 0x0A \<notin> set (snd kv)"
  shows "write_option kv = option_line kv @ [CHR 0x0A]"
proof -
  have "CHR 0x0A \<notin> set s \<Longrightarrow> str_replace [CHR 0x0A] new s = s" for new s
    by (induction s) auto
  with assms show ?thesis
    by (simp add: write_option_def option_line_def)
qed

lemma readlines_acc_line:
  "CHR 0x0A \<notin> set a \<Longrightarrow>
     readlines_acc cur (a @ CHR 0x0A # rest) = (rev cur @ a @ [CHR 0x0A]) # readlines_acc [] rest"
  by (induction a arbitrary: cur) auto

lemma readlines_lines:
  "\<forall>l\<in>set ls. CHR 0x0A \<notin> set l \<Longrightarrow>
     readlines (concat (map (\<lambda>l. l @ [CHR 0x0A]) ls)) = map (\<lambda>l. l @ [CHR 0x0A]) ls"
proof (induction ls)
  case Nil
  then show ?case by (simp add: readlines_def)
next
  case (Cons l ls)
  then have "readlines_acc [] (l @ CHR 0x0A # concat (map (\<lambda>l. l @ [CHR 0x0A]) ls))
      = (l @ [CHR 0x0A]) # readlines_acc [] (concat (map (\<lambda>l. l @ [CHR 0x0A]) ls))"
    using readlines_acc_line [of l "[]"] by simp
  with Cons show ?case by (simp add: readlines_def)
qed

lemma universal_newlines_id: "CHR 0x0D \<notin> set s \<Longrightarrow> universal_newlines s = s"
  by (induction s rule: universal_newlines.induct) auto

lemma update_fresh: "k \<notin> fst ` set d \<Longrightarrow> AList.update k v d = d @ [(k, v)]"
  by (induction d) auto

lemma option_line_parts:
  assumes "plain_key k" "plain_value v"
  shows "\<not> is_comment_line (option_line (k, v) @ [CHR 0x0A])"
    and "strip (option_line (k, v) @ [CHR 0x0A]) = option_line (k, v)"
    and "takeWhile py_isspace (option_line (k, v) @ [CHR 0x0A]) = []"
    and "match_sect (option_line (k, v)) = None"
    and "match_opt (option_line (k, v)) = Some (k, v)"
proof -
  let ?l = "option_line (k, v)"
  let ?nd = "\<lambda>c. c \<noteq> CHR ''='' \<and> c \<noteq> CHR '':''"
  from assms(1) obtain a k' where k: "k = a # k'" and
    a: "\<not> py_isspace a" "a \<noteq> CHR ''#''" "a \<noteq> CHR '';''" "a \<noteq> CHR ''[''"
    by (cases k) (auto simp: plain_key_def)
  have props: "?l \<noteq> []" "\<not> py_isspace (hd ?l)" "\<not> py_isspace (last ?l)"
    using option_line_props [of "(k, v)"] assms by simp_all
  show s: "strip (?l @ [CHR 0x0A]) = ?l"
    using props by (rule strip_line)
  have l: "?l = a # k' @ ''='' @ v"
    using k by (simp add: option_line_def)
  show "\<not> is_comment_line (?l @ [CHR 0x0A])"
    unfolding is_comment_line_def s using l a by simp
  show "takeWhile py_isspace (?l @ [CHR 0x0A]) = []"
    using l a by simp
  show "match_sect ?l = None"
    using l a by (simp add: match_sect_def)
  have nd: "\<And>x. x \<in> set k \<Longrightarrow> ?nd x"
    using assms(1) by (auto simp: plain_key_def)
  have t: "takeWhile ?nd (k @ CHR ''='' # v) = k"
    using nd by (simp add: takeWhile_append2)
  have d: "dropWhile ?nd (k @ CHR ''='' # v) = CHR ''='' # v"
    using nd by (simp add: dropWhile_append2)
  have rk: "rstrip k = k"
    using assms(1) by (intro rstrip_id) (simp add: plain_key_def)
  have lv: "lstrip v = v"
    using assms(2) by (intro lstrip_id) (auto simp: plain_value_def)
  show "match_opt ?l = Some (k, v)"
    using t d rk lv by (simp add: match_opt_def option_line_def)
qed

lemma plain_strips:
  assumes "plain_key k" "plain_value v"
  shows "rstrip k = k" "strip v = v" "rstrip v = v"
proof -
  show "rstrip k = k"
    using assms(1) by (intro rstrip_id) (simp add: plain_key_def)
  have "lstrip v = v"
    using assms(2) by (intro lstrip_id) (auto simp: plain_value_def)
  moreover show "rstrip v = v"
    using assms(2) by (intro rstrip_id) (auto simp: plain_value_def)
  ultimately show "strip v = v"
    by (simp add: strip_def)
qed

lemma read_option_line:
  assumes "plain_key k" "plain_value v"
    and "cursect p = InSection sn" "indent_level p = 0" "p_sections p = [(sn, d)]"
    and "Inr (sn, k) \<notin> set (elements_added p)" "k \<notin> fst ` set d"
  shows "read_line p (option_line (k, v) @ [CHR 0x0A]) =
           Inr \<lparr>p_defaults = p_defaults p, p_sections = [(sn, d @ [(k, [v])])],
                cursect = InSection sn, optname = Some k, indent_level = 0,
                elements_added = Inr (sn, k) # elements_added p,
                parsing_error = parsing_error p\<rparr>"
proof -
  note parts = option_line_parts [OF assms(1,2)]
  note strips = plain_strips [OF assms(1,2)]
  have ne: "option_line (k, v) \<noteq> []"
    using option_line_props(1) [of "(k, v)"] assms(1,2) by simp
  have kne: "k \<noteq> []"
    using assms(1) by (simp add: plain_key_def)
  show ?thesis
    unfolding read_line_def
    using parts strips ne kne assms(3-7)
    by (simp add: Let_def update_fresh)
qed

lemma read_option_lines:
  assumes "distinct (map fst items)"
    and "\<forall>kv\<in>set items. plain_key (fst kv) \<and> plain_value (snd kv)"
    and "cursect p = InSection sn" "indent_level p = 0" "p_sections p = [(sn, d)]"
    and "\<forall>k. Inr (sn, k) \<in> set (elements_added p) \<longrightarrow> k \<in> fst ` set d"
    and "fst ` set d \<inter> fst ` set items = {}"
  shows "\<exists>q. read_lines p (map (\<lambda>kv. option_line kv @ [CHR 0x0A]) items) = Inr q
     \<and> p_defaults q = p_defaults p
     \<and> p_sections q = [(sn, d @ map (\<lambda>kv. (fst kv, [snd kv])) items)]
     \<and> cursect q = InSection sn
     \<and> optname q = (if items = [] then optname p else Some (fst (last items)))
     \<and> parsing_error q = parsing_error p"
  using assms
proof (induction items arbitrary: p d)
  case Nil
  then show ?case by simp
next
  case (Cons kv items)
  obtain k v where kv: "kv = (k, v)" by (cases kv)
  let ?p1 = "\<lparr>p_defaults = p_defaults p, p_sections = [(sn, d @ [(k, [v])])],
                cursect = InSection sn, optname = Some k, indent_level = 0,
                elements_added = Inr (sn, k) # elements_added p,
                parsing_error = parsing_error p\<rparr>"
  have pk: "plain_key k" "plain_value v"
    using Cons.prems(2) kv by simp_all
  have fresh: "k \<notin> fst ` set d"
    using Cons.prems(7) kv by auto
  then have fresh': "Inr (sn, k) \<notin> set (elements_added p)"
    using Cons.prems(6) by blast
  have step: "read_line p (option_line kv @ [CHR 0x0A]) = Inr ?p1"
    unfolding kv
    using pk Cons.prems(3) Cons.prems(4) Cons.prems(5) fresh' fresh
    by (rule read_option_line)
  have d1: "distinct (map fst items)"
    using Cons.prems(1) by simp
  have a1: "\<forall>kv\<in>set items. plain_key (fst kv) \<and> plain_value (snd kv)"
    using Cons.prems(2) by simp
  have e1: "\<forall>k'. Inr (sn, k') \<in> set (elements_added ?p1) \<longrightarrow> k' \<in> fst ` set (d @ [(k, [v])])"
    using Cons.prems(6) by auto
  have i1: "fst ` set (d @ [(k, [v])]) \<inter> fst ` set items = {}"
    using Cons.prems(1) Cons.prems(7) kv by auto
  from Cons.IH [of ?p1 "d @ [(k, [v])]", OF d1 a1 _ _ _ e1 i1]
  obtain q where q: "read_lines ?p1 (map (\<lambda>kv. option_line kv @ [CHR 0x0A]) items) = Inr q"
    "p_defaults q = p_defaults ?p1"
    "p_sections q = [(sn, (d @ [(k, [v])]) @ map (\<lambda>kv. (fst kv, [snd kv])) items)]"
    "cursect q = InSection sn"
    "optname q = (if items = [] then optname ?p1 else Some (fst (last items)))"
    "parsing_error q = parsing_error ?p1"
    by auto
  have "read_lines p (map (\<lambda>kv. option_line kv @ [CHR 0x0A]) (kv # items)) = Inr q"
    using step q(1) by simp
  with q kv show ?case
    by auto
qed

lemma join_values_blank:
  "join_values (AList.map_entry n (\<lambda>l. l @ [[]]) (map (\<lambda>kv. (fst kv, [snd kv])) items))
     = join_values (map (\<lambda>kv. (fst kv, [snd kv])) items)"
proof (induction items)
  case Nil
  then show ?case by simp
next
  case (Cons kv items)
  have "rstrip (snd kv @ [CHR 0x0A]) = rstrip (snd kv)"
    by (rule rstrip_LF)
  with Cons show ?case
    by (simp add: join_values_def)
qed

lemma join_values_single:
  "\<forall>kv\<in>set items. rstrip (snd kv) = snd kv \<Longrightarrow>
     join_values (map (\<lambda>kv. (fst kv, [snd kv])) items) = items"
  by (induction items) (simp_all add: join_values_def)

lemma read_header_line:
  "read_line new_parser (''['' @ section_name_of cat @ '']'' @ [CHR 0x0A]) =
     Inr \<lparr>p_defaults = [], p_sections = [(section_name_of cat, [])],
          cursect = InSection (section_name_of cat), optname = None, indent_level = 0,
          elements_added = [Inl (section_name_of cat)], parsing_error = False\<rparr>"
proof -
  have v: "read_line new_parser (''[Versions]'' @ [CHR 0x0A]) =
     Inr \<lparr>p_defaults = [], p_sections = [(''Versions'', [])],
          cursect = InSection ''Versions'', optname = None, indent_level = 0,
          elements_added = [Inl ''Versions''], parsing_error = False\<rparr>"
    by code_simp
  have r: "read_line new_parser (''[Release Info]'' @ [CHR 0x0A]) =
     Inr \<lparr>p_defaults = [], p_sections = [(''Release Info'', [])],
          cursect = InSection ''Release Info'', optname = None, indent_level = 0,
          elements_added = [Inl ''Release Info''], parsing_error = False\<rparr>"
    by code_simp
  have "section_name_of cat = ''Versions'' \<or> section_name_of cat = ''Release Info''"
    by (simp add: section_name_of_def)
  with v r show ?thesis
    by auto
qed

lemma read_blank_line:
  assumes "cursect q = InSection sn" "p_sections q = [(sn, d)]"
  shows "read_line q [CHR 0x0A] =
           Inr (case optname q of
                  None \<Rightarrow> q
                | Some n \<Rightarrow>
                    if n = [] then q
                    else q\<lparr>p_sections := [(sn, AList.map_entry n (\<lambda>l. l @ [[]]) d)]\<rparr>)"
  using assms
  by (simp add: read_line_def is_comment_line_def strip_empty_line open_option_def
        split: option.splits)

lemma read_lines_append:
  "read_lines p (xs @ ys) =
     (case read_lines p xs of Inl err \<Rightarrow> Inl err | Inr q \<Rightarrow> read_lines q ys)"
  by (induction xs arbitrary: p) (auto split: sum.splits)

lemma section_name_of_chars:
  "CHR 0x0A \<notin> set (section_name_of cat)" "CHR 0x0D \<notin> set (section_name_of cat)"
  by (simp_all add: section_name_of_def)

lemma option_line_chars:
  assumes "plain_key (fst kv)" "plain_value (snd kv)"
  shows "CHR 0x0A \<notin> set (option_line kv)" "CHR 0x0D \<notin> set (option_line kv)"
  using assms by (auto simp: option_line_def plain_key_def plain_value_def)

lemma config_write_lines:
  assumes "\<forall>kv\<in>set items. plain_key (fst kv) \<and> plain_value (snd kv)"
  shows "config_write \<lparr>defaults = [], sections = [(sn, items)]\<rparr>
           = concat (map (\<lambda>l. l @ [CHR 0x0A]) ((''['' @ sn @ '']'') # map option_line items @ [[]]))"
proof -
  have "\<forall>kv\<in>set items. write_option kv = option_line kv @ [CHR 0x0A]"
    using assms by (auto intro!: write_option_line simp: plain_value_def)
  then have m: "map write_option items = map (\<lambda>kv. option_line kv @ [CHR 0x0A]) items"
    by (intro map_cong) simp_all
  show ?thesis
    by (simp add: config_write_def write_section_def comp_def m)
qed

text \<open>
  C5, amended. An ordered mapping whose keys are plain keys, each occurring once, and whose
  values are plain values is read back as it was written: reading the file written for it,
  one section with lines \<open>name=version\<close>, gives the same section with the same keys and
  values in the same order.
\<close>

theorem manifest_round_trip:
  assumes "distinct (map fst items)"
    and "\<forall>kv\<in>set items. plain_key (fst kv) \<and> plain_value (snd kv)"
  shows "config_read (config_write \<lparr>defaults = [], sections = [(section_name_of cat, items)]\<rparr>)
           = Inr \<lparr>defaults = [], sections = [(section_name_of cat, items)]\<rparr>"
proof -
  let ?sn = "section_name_of cat"
  let ?ls = "(''['' @ ?sn @ '']'') # map option_line items @ [[]]"
  let ?text = "config_write \<lparr>defaults = [], sections = [(?sn, items)]\<rparr>"
  let ?p0 = "\<lparr>p_defaults = [], p_sections = [(?sn, [])],
          cursect = InSection ?sn, optname = None, indent_level = 0,
          elements_added = [Inl ?sn], parsing_error = False\<rparr>"
  have w: "?text = concat (map (\<lambda>l. l @ [CHR 0x0A]) ?ls)"
    using assms(2) by (rule config_write_lines)
  have nolf: "\<forall>l\<in>set ?ls. CHR 0x0A \<notin> set l"
    using assms(2) section_name_of_chars(1) [of cat] option_line_chars(1) by auto
  have nocr: "CHR 0x0D \<notin> set ?text"
    unfolding w using assms(2) section_name_of_chars(2) [of cat] option_line_chars(2)
    by auto
  have lines: "readlines (universal_newlines ?text)
      = (''['' @ ?sn @ '']'' @ [CHR 0x0A])
        # map (\<lambda>kv. option_line kv @ [CHR 0x0A]) items @ [[CHR 0x0A]]"
  proof -
    have "readlines (universal_newlines ?text) = readlines (concat (map (\<lambda>l. l @ [CHR 0x0A]) ?ls))"
      using nocr w by (simp add: universal_newlines_id)
    also have "\<dots> = map (\<lambda>l. l @ [CHR 0x0A]) ?ls"
      using nolf by (rule readlines_lines)
    finally show ?thesis by (simp add: comp_def)
  qed
  have hdr: "read_line new_parser (''['' @ ?sn @ '']'' @ [CHR 0x0A]) = Inr ?p0"
    by (rule read_header_line)
  from read_option_lines [of items ?p0 ?sn "[]", OF assms(1) assms(2)]
  obtain q where q: "read_lines ?p0 (map (\<lambda>kv. option_line kv @ [CHR 0x0A]) items) = Inr q"
    "p_defaults q = []"
    "p_sections q = [(?sn, map (\<lambda>kv. (fst kv, [snd kv])) items)]"
    "cursect q = InSection ?sn"
    "optname q = (if items = [] then None else Some (fst (last items)))"
    "parsing_error q = False"
    by auto
  let ?d = "map (\<lambda>kv. (fst kv, [snd kv])) items"
  let ?q' = "case optname q of
                  None \<Rightarrow> q
                | Some n \<Rightarrow>
                    if n = [] then q
                    else q\<lparr>p_sections := [(?sn, AList.map_entry n (\<lambda>l. l @ [[]]) ?d)]\<rparr>"
  have blank: "read_line q [CHR 0x0A] = Inr ?q'"
    using q(4) q(3) by (rule read_blank_line)
  have all: "read_lines new_parser (readlines (universal_newlines ?text)) = Inr ?q'"
    unfolding lines using hdr q(1) blank by (simp add: read_lines_append)
  have err: "parsing_error ?q' = False"
    using q(6) by (simp split: option.splits)
  have dfl: "p_defaults ?q' = []"
    using q(2) by (simp split: option.splits)
  have rs: "\<forall>kv\<in>set items. rstrip (snd kv) = snd kv"
    using assms(2) plain_strips(3) by blast
  have secs: "map (\<lambda>sd. (fst sd, join_values (snd sd))) (p_sections ?q') = [(?sn, items)]"
    using q(3) rs by (simp add: join_values_blank join_values_single split: option.splits)
  show ?thesis
    unfolding config_read_def all using err dfl secs
    by (simp add: join_values_def)
qed

theorem manifest_round_trip_witness:
  "config_read (config_write
       \<lparr>defaults = [], sections = [(section_name_of ''apps'', [(''A'', ''1.0''), (''B'', ''2.3.4'')])]\<rparr>)
     = Inr \<lparr>defaults = [], sections = [(''Versions'', [(''A'', ''1.0''), (''B'', ''2.3.4'')])]\<rparr>
   \<and> plain_key ''A'' \<and> plain_value ''1.0'' \<and> plain_key ''B'' \<and> plain_value ''2.3.4''"
proof -
  have p: "plain_key ''A''" "plain_value ''1.0''" "plain_key ''B''" "plain_value ''2.3.4''"
    by (simp_all add: plain_key_def plain_value_def py_isspace_def)
  have d: "distinct (map fst [(''A'', ''1.0''), (''B'', ''2.3.4'')])"
    by simp
  have a: "\<forall>kv\<in>set [(''A'', ''1.0''), (''B'', ''2.3.4'')]. plain_key (fst kv) \<and> plain_value (snd kv)"
    using p by simp
  from manifest_round_trip [OF d a, of "''apps''"] p show ?thesis
    by (simp add: section_name_of_def)
qed

text \<open>
  The file written by \<open>generate_release_ini\<close> is read back as written when the names of the
  entries are plain keys and the normalised tags are plain values.
\<close>

lemma plain_items_update:
  assumes "plain_items items" "plain_key k" "plain_value v"
  shows "plain_items (AList.update k v items)"
proof -
  have "set (AList.update k v items) \<subseteq> insert (k, v) (set items)"
    by (induction items) auto
  with assms show ?thesis
    unfolding plain_items_def by (auto simp: distinct_update)
qed

lemma process_entries_plain:
  assumes "process_entries remote sn st es = Inr st'"
    and "cfg st = \<lparr>defaults = [], sections = [(sn, items)]\<rparr>"
    and "sn \<noteq> []" and "sn \<noteq> ''DEFAULT''"
    and "plain_items items"
    and "\<forall>e\<in>set es. plain_key (name e)"
    and "\<forall>e\<in>set es. \<forall>t. get_latest_tag remote (owner e) (repo e) = Some t
           \<longrightarrow> plain_value (clean_tag t)"
  shows "\<exists>items'. cfg st' = \<lparr>defaults = [], sections = [(sn, items')]\<rparr> \<and> plain_items items'"
  using assms
proof (induction es arbitrary: st items)
  case Nil
  then show ?case by simp
next
  case (Cons e es)
  from Cons.prems(1) obtain st1 where
    step: "process_entry remote sn st e = Inr st1" and
    rest: "process_entries remote sn st1 es = Inr st'"
    by (auto split: sum.splits)
  have "\<exists>items1. cfg st1 = \<lparr>defaults = [], sections = [(sn, items1)]\<rparr> \<and> plain_items items1"
  proof (cases "get_latest_tag remote (owner e) (repo e)")
    case None
    with step Cons.prems(2) Cons.prems(5) show ?thesis
      by (auto simp: process_entry_def)
  next
    case (Some t)
    show ?thesis
    proof (cases "t = []")
      case True
      with Some step Cons.prems(2) Cons.prems(5) show ?thesis
        by (auto simp: process_entry_def)
    next
      case False
      with Some step obtain c where
        c: "config_set (cfg st) sn (name e) (clean_tag t) = Inr c" and
        st1: "st1 = st\<lparr>cfg := c, success_count := success_count st + 1\<rparr>"
        by (auto simp: process_entry_def split: sum.splits)
      from c Cons.prems(2) have
        "c = \<lparr>defaults = [], sections = [(sn, AList.update (name e) (clean_tag t) items)]\<rparr>"
        using config_set_single [of sn items "name e" "clean_tag t" c] Cons.prems(3) Cons.prems(4)
        by simp
      moreover have "plain_items (AList.update (name e) (clean_tag t) items)"
        using Cons.prems(5) Cons.prems(6) Cons.prems(7) Some
        by (intro plain_items_update) auto
      ultimately show ?thesis
        using st1 by auto
    qed
  qed
  then obtain items1 where
    c1: "cfg st1 = \<lparr>defaults = [], sections = [(sn, items1)]\<rparr>" and p1: "plain_items items1"
    by blast
  show ?case
    using Cons.IH [OF rest c1 Cons.prems(3) Cons.prems(4) p1] Cons.prems(6) Cons.prems(7)
    by simp
qed

lemma generate_release_ini_round_trip:
  assumes "generate_release_ini remote w cat entries output_path = Inr (r, w')"
    and "\<forall>e\<in>set entries. plain_key (name e)"
    and "\<forall>e\<in>set entries. \<forall>t. get_latest_tag remote (owner e) (repo e) = Some t
           \<longrightarrow> plain_value (clean_tag t)"
  shows "\<exists>items. files w' output_path
             = Some (config_write \<lparr>defaults = [], sections = [(section_name_of cat, items)]\<rparr>)
           \<and> config_read (config_write \<lparr>defaults = [], sections = [(section_name_of cat, items)]\<rparr>)
             = Inr \<lparr>defaults = [], sections = [(section_name_of cat, items)]\<rparr>"
proof -
  let ?sn = "section_name_of cat"
  let ?c0 = "\<lparr>defaults = [], sections = [(?sn, [])]\<rparr>"
  let ?st0 = "\<lparr>cfg = ?c0, success_count = 0, failure_count = 0, failed_entries = []\<rparr>"
  have add: "add_section new_config ?sn = Inr ?c0"
    using section_name_of_regular [of cat] by (simp add: add_section_def new_config_def)
  from assms(1) add obtain st where
    loop: "process_entries remote ?sn ?st0 entries = Inr st" and
    w': "w' = write_file w output_path (config_write (cfg st))"
    by (auto simp: generate_release_ini_def Let_def split: sum.splits)
  have c0: "cfg ?st0 = \<lparr>defaults = [], sections = [(?sn, [])]\<rparr>" by simp
  have p0: "plain_items []" by (simp add: plain_items_def)
  from process_entries_plain [OF loop c0 _ _ p0 assms(2) assms(3)]
    section_name_of_regular [of cat]
  obtain items where i: "cfg st = \<lparr>defaults = [], sections = [(?sn, items)]\<rparr>"
    and p: "plain_items items"
    by auto
  have "files w' output_path = Some (config_write \<lparr>defaults = [], sections = [(?sn, items)]\<rparr>)"
    using w' i by (simp add: write_file_def)
  moreover have "config_read (config_write \<lparr>defaults = [], sections = [(?sn, items)]\<rparr>)
             = Inr \<lparr>defaults = [], sections = [(?sn, items)]\<rparr>"
    using p unfolding plain_items_def by (intro manifest_round_trip) simp_all
  ultimately show ?thesis by blast
qed

text \<open>
  C5, as the claim states it, fails: the format has no escaping. The section \<open>[NX: Shell]\<close>
  of an input file gives the name \<open>NX: Shell\<close>; the line written is \<open>NX: Shell=2.0.0\<close>, and
  the parser splits it at the first delimiter, the colon.
\<close>

theorem manifest_round_trip_fails:
  "generate_release_ini example_remote empty_world ''apps''
       [\<lparr>name = ''NX: Shell'', owner = ''foo'', repo = ''bar'',
         url = ''https://api.github.com/repos/foo/bar/releases?per_page=1''\<rparr>]
       ''include/apps/RELEASE_APPS.ini''
     = Inr (\<lparr>category = ''apps'', total = 1, success = 1, failed = 0, failed_list = []\<rparr>,
            write_file empty_world ''include/apps/RELEASE_APPS.ini''
              (config_write
                 \<lparr>defaults = [], sections = [(''Versions'', [(''NX: Shell'', ''2.0.0'')])]\<rparr>))
   \<and> config_read (config_write
         \<lparr>defaults = [], sections = [(''Versions'', [(''NX: Shell'', ''2.0.0'')])]\<rparr>)
     = Inr \<lparr>defaults = [], sections = [(''Versions'', [(''NX'', ''Shell=2.0.0'')])]\<rparr>"
proof -
  have r: "config_read (config_write
         \<lparr>defaults = [], sections = [(''Versions'', [(''NX: Shell'', ''2.0.0'')])]\<rparr>)
     = Inr \<lparr>defaults = [], sections = [(''Versions'', [(''NX'', ''Shell=2.0.0'')])]\<rparr>"
    by code_simp
  have g: "generate_release_ini example_remote empty_world ''apps''
       [\<lparr>name = ''NX: Shell'', owner = ''foo'', repo = ''bar'',
         url = ''https://api.github.com/repos/foo/bar/releases?per_page=1''\<rparr>]
       ''include/apps/RELEASE_APPS.ini''
     = Inr (\<lparr>category = ''apps'', total = 1, success = 1, failed = 0, failed_list = []\<rparr>,
            write_file empty_world ''include/apps/RELEASE_APPS.ini''
              (config_write
                 \<lparr>defaults = [], sections = [(''Versions'', [(''NX: Shell'', ''2.0.0'')])]\<rparr>))"
    by (simp add: generate_release_ini_def section_name_of_def add_section_def new_config_def
      process_entry_def get_latest_tag_def GITHUB_API_def example_remote_def
      dict_get_def clean_tag_def lstrip_chars_def config_set_def valid_interpolation_def
      match_key_def)
  from g r show ?thesis by simp
qed


end
